theory Spec2Isabelle
  imports Complex_Main
begin

section \<open>Shared definitions\<close>

text \<open>
  Python exceptions are values: a call that can raise returns \<open>error + 'a\<close>, with
  \<open>Inl\<close> for the exception. The timing arithmetic of \<open>predict\<close> is done in double
  precision, with its rounding. The telemetry readings and the softmax scores are read
  as real numbers: no statement below depends on how they are rounded.
\<close>

datatype error =
    ValueError string
  | RuntimeError string
  | IndexError
  | ValidationError string
  | IsADirectoryError
  | FileNotFoundError
  | FileExistsError
  | NotADirectoryError
  | ZeroDivisionError
  | AssertionError
  | UnidentifiedImageError
  | DecompressionBombError
  | ExternalError string

text \<open>\<open>str(n)\<close> for a non-negative integer, as the f-strings of the source use it.\<close>

definition digit_char :: "nat \<Rightarrow> char" where
  "digit_char d = ''0123456789'' ! d"

function str_nat :: "nat \<Rightarrow> string" where
  "str_nat n = (if n < 10 then [digit_char n] else str_nat (n div 10) @ [digit_char (n mod 10)])"
  by pat_completeness auto
termination
  by (relation "measure id") auto

declare str_nat.simps [simp del]

text \<open>Devices as \<open>torch.device\<close> tells them apart: \<open>device.type\<close> is "cuda" or "cpu".\<close>

datatype torch_device = Cuda nat | Cpu

fun is_cuda :: "torch_device \<Rightarrow> bool" where
  "is_cuda (Cuda i) = True"
| "is_cuda Cpu = False"

text \<open>A path is the list of its components; \<open>Path.parent\<close> drops the last one.\<close>

type_synonym path = "string list"

type_synonym bytes = string

definition parent :: "path \<Rightarrow> path" where
  "parent p = butlast p"

text \<open>
  \<open>config.Settings\<close>, the fields the two subsystems read. The fields that share a name
  with a constructor argument of the engine carry the prefix \<open>cfg\<close>.
\<close>

record Settings =
  model_fp16 :: bool
  model_engine_path :: path
  model_torch_weights :: "string option"
  cfg_device :: torch_device
  metrics_update_interval_s :: real
  dcgm_field_ids :: "nat list"
  cfg_allow_cpu_fallback :: bool
  cfg_max_batch_size :: int

section \<open>Telemetry: \<open>app/metrics.py\<close>\<close>

subsection \<open>Data\<close>




text \<open>What \<open>pynvml\<close> reports for one device at one moment (integers in native units).\<close>

record nvml_reading =
  util_gpu :: nat
  util_memory :: nat
  mem_used :: nat
  mem_total :: nat
  power_usage :: nat
  enforced_power_limit :: nat
  temperature :: nat

text \<open>
  The monitoring stack the module finds when it runs. The two libraries are outside the
  repository, so what they answer is a parameter: whether each import succeeded, whether
  each call of a constructor goes through, and the readings by device and time.
\<close>

record telemetry_env =
  pydcgm_installed :: bool
  dcgm_system_ok :: bool
  dcgm_gpus :: "nat list"
  dcgm_watch_ok :: bool
  dcgm_values :: "nat \<Rightarrow> real \<Rightarrow> (nat \<rightharpoonup> real)"
  pynvml_installed :: bool
  nvml_init_ok :: bool
  nvml_handle0 :: "nat option"
  nvml_read :: "nat \<Rightarrow> real \<Rightarrow> nvml_reading"
  nvml_name :: "nat \<Rightarrow> string"

text \<open>The three backend classes; a value carries what \<open>__init__\<close> stored on \<open>self\<close>.\<close>

datatype backend = DCGMBackend nat | NVMLBackend nat | StubBackend

subsection \<open>Backend constructors\<close>

definition DCGMBackend_init :: "telemetry_env \<Rightarrow> error + backend" where
  "DCGMBackend_init E =
     (if \<not> pydcgm_installed E then Inl (RuntimeError ''pydcgm not installed.'')
      else if \<not> dcgm_system_ok E then Inl (ExternalError ''DcgmSystem'')
      else (case dcgm_gpus E of
              [] \<Rightarrow> Inl (RuntimeError ''No GPU devices discovered via DCGM.'')
            | d # _ \<Rightarrow>
                if \<not> dcgm_watch_ok E then Inl (ExternalError ''watch_fields'')
                else Inr (DCGMBackend d)))"

definition NVMLBackend_init :: "telemetry_env \<Rightarrow> error + backend" where
  "NVMLBackend_init E =
     (if \<not> pynvml_installed E then Inl (RuntimeError ''pynvml not available.'')
      else if \<not> nvml_init_ok E then Inl (ExternalError ''nvmlInit'')
      else (case nvml_handle0 E of
              None \<Rightarrow> Inl (ExternalError ''nvmlDeviceGetHandleByIndex'')
            | Some h \<Rightarrow> Inr (NVMLBackend h)))"

subsection \<open>Backend properties and sampling\<close>

fun backend_source :: "backend \<Rightarrow> string" where
  "backend_source (DCGMBackend d) = ''dcgm''"
| "backend_source (NVMLBackend h) = ''nvml''"
| "backend_source StubBackend = ''stub''"





subsection \<open>The collector\<close>

record MetricsCollector =
  backend_of :: backend

text \<open>
  The loop of \<open>_initialize_backend\<close>: the first candidate whose constructor returns;
  an exception of a constructor is caught and the loop goes on.
\<close>

fun first_constructed :: "(telemetry_env \<Rightarrow> error + backend) list \<Rightarrow> telemetry_env \<Rightarrow> backend option" where
  "first_constructed [] E = None"
| "first_constructed (backend_cls # rest) E =
     (case backend_cls E of Inr b \<Rightarrow> Some b | Inl e \<Rightarrow> first_constructed rest E)"

definition initialize_backend :: "telemetry_env \<Rightarrow> backend" where
  "initialize_backend E =
     (case first_constructed [DCGMBackend_init, NVMLBackend_init] E of
        Some b \<Rightarrow> b
      | None \<Rightarrow> StubBackend)"

definition MetricsCollector_init :: "telemetry_env \<Rightarrow> MetricsCollector" where
  "MetricsCollector_init E = \<lparr> backend_of = initialize_backend E \<rparr>"










section \<open>Inference: \<open>app/inference.py\<close>\<close>

subsection \<open>Data\<close>

text \<open>The two preprocessing classes, with the \<open>size\<close> their constructors store.\<close>

datatype preprocessor = CuPyPreprocessor nat | TorchPreprocessor nat

text \<open>
  A model is described by how it was obtained. \<open>resnet18\<close> returns a module in training
  mode, on the CPU, in single precision; its weights are the pretrained ones, random ones
  (\<open>weights=None\<close>) or, after \<open>load_state_dict\<close>, those of a local file.
\<close>

datatype weights = Pretrained | RandomInit | StateDict string

record torch_module =
  m_weights :: weights
  m_eval :: bool
  m_device :: torch_device
  m_half :: bool

definition resnet18 :: "weights \<Rightarrow> torch_module" where
  "resnet18 ws = \<lparr> m_weights = ws, m_eval = False, m_device = Cpu, m_half = False \<rparr>"

datatype dtype = Half | Float

datatype device_spec = TrtDevice string | TorchDevice string

text \<open>One \<open>torch_tensorrt.Input\<close>: a range of shapes, an element type and a device.\<close>

record trt_input =
  min_shape :: "int list"
  opt_shape :: "int list"
  max_shape :: "int list"
  in_dtype :: dtype
  in_device :: device_spec

text \<open>
  An accelerated module is either the result of \<open>torch.jit.load\<close> on the bytes of a file,
  mapped to a device, or the result of \<open>torch_tensorrt.compile\<close> with its arguments:
  the model, the inputs, the enabled precisions and \<open>truncate_long_and_double\<close>.
\<close>

datatype trt_module =
    JitLoaded bytes torch_device
  | TrtCompiled torch_module "trt_input list" "dtype set" bool

record ResNet18Engine =
  device :: torch_device
  fp16 :: bool
  max_batch_size :: int
  allow_cpu_fallback :: bool
  engine_path :: path
  labels :: "string list"
  preprocessor_of :: preprocessor
  torch_model :: "torch_module option"
  trt_module_of :: "trt_module option"

text \<open>The disk: the files with their bytes and the directories.\<close>

record filesystem =
  files :: "path \<rightharpoonup> bytes"
  dirs :: "path set"

text \<open>The calls that construction makes on the libraries and the disk, as they are logged.\<close>

datatype build_event =
    EvResnet18 weights
  | EvTorchLoad string
  | EvMkdir path
  | EvExists path
  | EvReadBytes path
  | EvJitLoad
  | EvCompile "trt_input list" "dtype set"
  | EvJitSave
  | EvWriteBytes path

text \<open>
  What the process finds around it when the engine is built: which optional imports
  succeeded, whether CUDA is there, whether the pretrained weights can be fetched and the
  label set shipped with them, and for each library call that can raise, the exception
  it raises, if any: \<open>torch.load\<close> and \<open>load_state_dict\<close> on a weight file,
  \<open>torch.jit.load\<close> on the bytes of an engine file (it raises on bytes that are not a
  TorchScript archive), \<open>torch_tensorrt.compile\<close>, \<open>torch.jit.save\<close> (whose output is
  \<open>jit_save\<close>), and the operating system on a \<open>mkdir\<close>, a read or a write
  (permissions, a full disk).
\<close>

record runtime_env =
  cuda_is_available :: bool
  cupy_imported :: bool
  torch_tensorrt_imported :: bool
  torch_tensorrt_has_Device :: bool
  pretrained_available :: bool
  categories :: "string list"
  torch_load_fault :: "string \<Rightarrow> error option"
  load_state_dict_fault :: "string \<Rightarrow> error option"
  jit_load_fault :: "bytes \<Rightarrow> error option"
  compile_fault :: "torch_module \<Rightarrow> trt_input list \<Rightarrow> dtype set \<Rightarrow> error option"
  jit_save_fault :: "trt_module \<Rightarrow> error option"
  jit_save :: "trt_module \<Rightarrow> bytes"
  os_fault :: "build_event \<Rightarrow> error option"

record build_state =
  disk :: filesystem
  build_log :: "build_event list"

definition logged :: "build_event \<Rightarrow> build_state \<Rightarrow> build_state" where
  "logged ev st = st\<lparr>build_log := build_log st @ [ev]\<rparr>"

subsection \<open>Filesystem calls\<close>

definition ancestors_and_self :: "path \<Rightarrow> path list" where
  "ancestors_and_self p = map (\<lambda>k. take k p) [0 ..< Suc (length p)]"

text \<open>
  \<open>p.mkdir(parents=True, exist_ok=True)\<close>. It raises \<open>FileExistsError\<close> when \<open>p\<close> is a
  regular file, \<open>NotADirectoryError\<close> when an ancestor of \<open>p\<close> is one, and whatever the
  operating system raises; nothing is created then. Otherwise the directory and every
  ancestor exist afterwards.
\<close>

definition mkdir_parents :: "runtime_env \<Rightarrow> path \<Rightarrow> build_state \<Rightarrow> (error + unit) \<times> build_state" where
  "mkdir_parents R p st =
     (if files (disk st) p \<noteq> None then (Inl FileExistsError, logged (EvMkdir p) st)
      else if list_ex (\<lambda>q. files (disk st) q \<noteq> None) (ancestors_and_self p)
        then (Inl NotADirectoryError, logged (EvMkdir p) st)
      else (case os_fault R (EvMkdir p) of
              Some e \<Rightarrow> (Inl e, logged (EvMkdir p) st)
            | None \<Rightarrow>
                (Inr (),
                 logged (EvMkdir p)
                   (st\<lparr>disk := (disk st)\<lparr>dirs := dirs (disk st) \<union> set (ancestors_and_self p)\<rparr>\<rparr>))))"

text \<open>The condition under which that \<open>mkdir\<close> goes through.\<close>

definition can_mkdir :: "runtime_env \<Rightarrow> path \<Rightarrow> build_state \<Rightarrow> bool" where
  "can_mkdir R p st \<longleftrightarrow>
     \<not> list_ex (\<lambda>q. files (disk st) q \<noteq> None) (ancestors_and_self p)
     \<and> os_fault R (EvMkdir p) = None"

text \<open>\<open>Path.exists\<close> is true of a file and of a directory.\<close>

definition path_exists :: "path \<Rightarrow> build_state \<Rightarrow> bool \<times> build_state" where
  "path_exists p st =
     (files (disk st) p \<noteq> None \<or> p \<in> dirs (disk st), logged (EvExists p) st)"

definition read_bytes :: "runtime_env \<Rightarrow> path \<Rightarrow> build_state \<Rightarrow> (error + bytes) \<times> build_state" where
  "read_bytes R p st =
     (case files (disk st) p of
        Some b \<Rightarrow>
          (case os_fault R (EvReadBytes p) of
             Some e \<Rightarrow> (Inl e, logged (EvReadBytes p) st)
           | None \<Rightarrow> (Inr b, logged (EvReadBytes p) st))
      | None \<Rightarrow>
          (if p \<in> dirs (disk st) then Inl IsADirectoryError else Inl FileNotFoundError,
           logged (EvReadBytes p) st))"

definition write_bytes :: "runtime_env \<Rightarrow> path \<Rightarrow> bytes \<Rightarrow> build_state \<Rightarrow> (error + unit) \<times> build_state" where
  "write_bytes R p b st =
     (if p \<in> dirs (disk st) then (Inl IsADirectoryError, logged (EvWriteBytes p) st)
      else if parent p \<notin> dirs (disk st) then (Inl FileNotFoundError, logged (EvWriteBytes p) st)
      else (case os_fault R (EvWriteBytes p) of
              Some e \<Rightarrow> (Inl e, logged (EvWriteBytes p) st)
            | None \<Rightarrow>
                (Inr (),
                 logged (EvWriteBytes p)
                   (st\<lparr>disk := (disk st)\<lparr>files := (files (disk st))(p \<mapsto> b)\<rparr>\<rparr>))))"

subsection \<open>Construction\<close>

definition CuPyPreprocessor_init :: "runtime_env \<Rightarrow> nat \<Rightarrow> error + preprocessor" where
  "CuPyPreprocessor_init R sz =
     (if \<not> cupy_imported R
      then Inl (RuntimeError ''CuPy is required for CuPyPreprocessor but was not found.'')
      else Inr (CuPyPreprocessor sz))"

text \<open>\<open>_select_preprocessor\<close> reads \<open>self.device\<close> only, which is passed here.\<close>

definition select_preprocessor :: "runtime_env \<Rightarrow> torch_device \<Rightarrow> error + preprocessor" where
  "select_preprocessor R dev =
     (if is_cuda dev \<and> cupy_imported R then CuPyPreprocessor_init R 224
      else Inr (TorchPreprocessor 224))"

definition compile_inputs_of :: "runtime_env \<Rightarrow> ResNet18Engine \<Rightarrow> trt_input list" where
  "compile_inputs_of R self =
     (let device_spec =
            (if torch_tensorrt_has_Device R then TrtDevice ''cuda:0'' else TorchDevice ''cuda:0'')
      in [\<lparr> min_shape = [1, 3, 224, 224],
            opt_shape = [max_batch_size self div 2 + 1, 3, 224, 224],
            max_shape = [max_batch_size self, 3, 224, 224],
            in_dtype = (if fp16 self then Half else Float),
            in_device = device_spec \<rparr>])"

definition enabled_precisions_of :: "ResNet18Engine \<Rightarrow> dtype set" where
  "enabled_precisions_of self = (if fp16 self then {Float, Half} else {Float})"

definition load_or_compile_trt ::
  "runtime_env \<Rightarrow> ResNet18Engine \<Rightarrow> torch_module \<Rightarrow> build_state
     \<Rightarrow> (error + trt_module option) \<times> build_state" where
  "load_or_compile_trt R self model st0 =
     (case mkdir_parents R (parent (engine_path self)) st0 of
        (Inl e, st1) \<Rightarrow> (Inl e, st1)
      | (Inr u, st1) \<Rightarrow>
          (case path_exists (engine_path self) st1 of (ex, st2) \<Rightarrow>
             if ex then
               (case read_bytes R (engine_path self) st2 of
                  (Inl e, st3) \<Rightarrow> (Inl e, st3)
                | (Inr serialized, st3) \<Rightarrow>
                    (case jit_load_fault R serialized of
                       Some e \<Rightarrow> (Inl e, logged EvJitLoad st3)
                     | None \<Rightarrow>
                         (Inr (Some (JitLoaded serialized (device self))), logged EvJitLoad st3)))
             else if \<not> torch_tensorrt_imported R then (Inr None, st2)
             else
               (let compile_inputs = compile_inputs_of R self;
                    enabled_precisions = enabled_precisions_of self;
                    st3 = logged (EvCompile compile_inputs enabled_precisions) st2
                in case compile_fault R model compile_inputs enabled_precisions of
                     Some e \<Rightarrow> (Inl e, st3)
                   | None \<Rightarrow>
                       (let trt = TrtCompiled model compile_inputs enabled_precisions True;
                            st4 = logged EvJitSave st3
                        in case jit_save_fault R trt of
                             Some e \<Rightarrow> (Inl e, st4)
                           | None \<Rightarrow>
                               (case write_bytes R (engine_path self) (jit_save R trt) st4 of
                                  (Inl e, st5) \<Rightarrow> (Inl e, st5)
                                | (Inr w, st5) \<Rightarrow> (Inr (Some trt), st5))))))"

text \<open>The labels used without the pretrained metadata: \<open>class_0\<close> to \<open>class_999\<close>.\<close>

definition fallback_labels :: "string list" where
  "fallback_labels = map (\<lambda>idx. ''class_'' @ str_nat idx) [0 ..< 1000]"

text \<open>
  The \<open>try\<close>/\<open>except\<close> at the head of \<open>_load_models\<close>: the model and the labels, or the
  exception that leaves the method. An empty string for the weight file is false in
  Python's \<open>if\<close>, as \<open>None\<close> is.
\<close>

definition load_weights ::
  "runtime_env \<Rightarrow> Settings \<Rightarrow> build_state \<Rightarrow> (error + torch_module \<times> string list) \<times> build_state" where
  "load_weights R S st =
     (if pretrained_available R
      then (Inr (resnet18 Pretrained, categories R), logged (EvResnet18 Pretrained) st)
      else
        (let model = resnet18 RandomInit;
             st1 = logged (EvResnet18 RandomInit) (logged (EvResnet18 Pretrained) st)
         in case model_torch_weights S of
              None \<Rightarrow>
                (Inl (RuntimeError ''Unable to load pretrained ResNet18 weights. Set GAVID_MODEL_TORCH_WEIGHTS to a local .pth file.''), st1)
            | Some w \<Rightarrow>
                if w = [] then
                  (Inl (RuntimeError ''Unable to load pretrained ResNet18 weights. Set GAVID_MODEL_TORCH_WEIGHTS to a local .pth file.''), st1)
                else
                  (case torch_load_fault R w of
                     Some e \<Rightarrow> (Inl e, logged (EvTorchLoad w) st1)
                   | None \<Rightarrow>
                       (case load_state_dict_fault R w of
                          Some e \<Rightarrow> (Inl e, logged (EvTorchLoad w) st1)
                        | None \<Rightarrow>
                            (Inr (model\<lparr>m_weights := StateDict w\<rparr>, fallback_labels),
                             logged (EvTorchLoad w) st1)))))"

definition load_models ::
  "runtime_env \<Rightarrow> Settings \<Rightarrow> ResNet18Engine \<Rightarrow> build_state
     \<Rightarrow> (error + ResNet18Engine) \<times> build_state" where
  "load_models R S self st =
     (case load_weights R S st of
        (Inl e, st1) \<Rightarrow> (Inl e, st1)
      | (Inr (model0, lbls), st1) \<Rightarrow>
          (let model1 = model0\<lparr>m_eval := True\<rparr>;
               model2 =
                 (if is_cuda (device self)
                  then (let m = model1\<lparr>m_device := device self\<rparr>
                        in if fp16 self then m\<lparr>m_half := True\<rparr> else m)
                  else model1);
               self1 = self\<lparr>labels := lbls, torch_model := Some model2\<rparr>
           in if is_cuda (device self) \<and> torch_tensorrt_imported R then
                (case load_or_compile_trt R self1 model2 st1 of
                   (Inl e, st2) \<Rightarrow> (Inl e, st2)
                 | (Inr t, st2) \<Rightarrow> (Inr (self1\<lparr>trt_module_of := t\<rparr>), st2))
              else if \<not> is_cuda (device self) \<and> \<not> allow_cpu_fallback self then
                (Inl (RuntimeError ''CUDA device required but not available.''), st1)
              else (Inr self1, st1)))"

text \<open>
  \<open>ResNet18Engine.__init__\<close>. The arguments are the optional engine path, the
  requested device, the precision flag, the batch bound and the fallback flag. An
  engine path that is false in Python (\<open>None\<close> or the empty string) is \<open>None\<close>
  here and stands for \<open>settings.model_engine_path\<close>.
\<close>

definition ResNet18Engine_init ::
  "runtime_env \<Rightarrow> Settings \<Rightarrow> path option \<Rightarrow> torch_device \<Rightarrow> bool \<Rightarrow> int \<Rightarrow> bool \<Rightarrow> build_state
     \<Rightarrow> (error + ResNet18Engine) \<times> build_state" where
  "ResNet18Engine_init R S engine_path_arg device_arg fp16_arg max_batch_size_arg
       allow_cpu_fallback_arg st =
     (let dev = (if cuda_is_available R then device_arg else Cpu) in
      case select_preprocessor R dev of
        Inl e \<Rightarrow> (Inl e, st)
      | Inr pre \<Rightarrow>
          load_models R S
            \<lparr> device = dev,
              fp16 = fp16_arg,
              max_batch_size = max_batch_size_arg,
              allow_cpu_fallback = allow_cpu_fallback_arg,
              engine_path = (case engine_path_arg of Some p \<Rightarrow> p | None \<Rightarrow> model_engine_path S),
              labels = categories R,
              preprocessor_of = pre,
              torch_model = None,
              trt_module_of = None \<rparr> st)"

text \<open>The call inside \<open>get_engine\<close>: every argument but the path takes its default from the settings.\<close>

definition default_engine ::
  "runtime_env \<Rightarrow> Settings \<Rightarrow> build_state \<Rightarrow> (error + ResNet18Engine) \<times> build_state" where
  "default_engine R S st =
     ResNet18Engine_init R S (Some (model_engine_path S)) (cfg_device S) (model_fp16 S)
       (cfg_max_batch_size S) (cfg_allow_cpu_fallback S) st"


subsection \<open>Double-precision arithmetic\<close>

text \<open>
  A Python float is an IEEE 754 double: a finite value, an infinity or a NaN. A finite
  double is read as the real number it denotes (the sign of zero is not kept).
\<close>

datatype pyfloat = Fin real | PosInf | NegInf | NaN

definition pow2 :: "int \<Rightarrow> real" where
  "pow2 k = (if 0 \<le> k then 2 ^ nat k else 1 / 2 ^ nat (- k))"

text \<open>Rounding to the nearest integer, ties to the even one.\<close>

definition round_even :: "real \<Rightarrow> int" where
  "round_even y =
     (let f = \<lfloor>y\<rfloor> in
      if y - of_int f < 1 / 2 then f
      else if 1 / 2 < y - of_int f then f + 1
      else if even f then f else f + 1)"

text \<open>
  The doubles around \<open>x\<close> are the multiples of \<open>pow2 (grid_exp x)\<close>: 53 significant
  bits in the normal range, multiples of \<open>2^-1074\<close> below it.
\<close>

definition binade :: "real \<Rightarrow> int" where
  "binade x = \<lfloor>log 2 \<bar>x\<bar>\<rfloor>"

definition grid_exp :: "real \<Rightarrow> int" where
  "grid_exp x = max (binade x - 52) (- 1074)"

text \<open>
  The result of an operation whose exact value is \<open>x\<close>: the nearest double, ties to
  even, and an infinity when that is beyond the largest double.
\<close>

definition round_double :: "real \<Rightarrow> pyfloat" where
  "round_double x =
     (if x = 0 then Fin 0
      else
        (let u = pow2 (grid_exp x); r = of_int (round_even (x / u)) * u
         in if pow2 1024 \<le> r then PosInf else if r \<le> - pow2 1024 then NegInf else Fin r))"

fun fneg :: "pyfloat \<Rightarrow> pyfloat" where
  "fneg (Fin a) = Fin (- a)"
| "fneg PosInf = NegInf"
| "fneg NegInf = PosInf"
| "fneg NaN = NaN"

fun fadd :: "pyfloat \<Rightarrow> pyfloat \<Rightarrow> pyfloat" where
  "fadd NaN y = NaN"
| "fadd x NaN = NaN"
| "fadd PosInf NegInf = NaN"
| "fadd NegInf PosInf = NaN"
| "fadd PosInf y = PosInf"
| "fadd NegInf y = NegInf"
| "fadd x PosInf = PosInf"
| "fadd x NegInf = NegInf"
| "fadd (Fin a) (Fin b) = round_double (a + b)"

definition fsub :: "pyfloat \<Rightarrow> pyfloat \<Rightarrow> pyfloat" where
  "fsub x y = fadd x (fneg y)"

fun fsign :: "pyfloat \<Rightarrow> int" where
  "fsign (Fin a) = (if 0 < a then 1 else if a < 0 then - 1 else 0)"
| "fsign PosInf = 1"
| "fsign NegInf = - 1"
| "fsign NaN = 0"

definition signed_inf :: "int \<Rightarrow> pyfloat" where
  "signed_inf s = (if s = 0 then NaN else if 0 < s then PosInf else NegInf)"

fun fmul :: "pyfloat \<Rightarrow> pyfloat \<Rightarrow> pyfloat" where
  "fmul NaN y = NaN"
| "fmul x NaN = NaN"
| "fmul (Fin a) (Fin b) = round_double (a * b)"
| "fmul x y = signed_inf (fsign x * fsign y)"

text \<open>Python raises \<open>ZeroDivisionError\<close> on a division of floats by zero.\<close>

fun fdiv :: "pyfloat \<Rightarrow> pyfloat \<Rightarrow> error + pyfloat" where
  "fdiv NaN y = (if y = Fin 0 then Inl ZeroDivisionError else Inr NaN)"
| "fdiv x NaN = Inr NaN"
| "fdiv (Fin a) (Fin b) = (if b = 0 then Inl ZeroDivisionError else Inr (round_double (a / b)))"
| "fdiv (Fin a) y = Inr (Fin 0)"
| "fdiv x (Fin b) = (if b = 0 then Inl ZeroDivisionError else Inr (signed_inf (fsign x * fsign (Fin b))))"
| "fdiv x y = Inr NaN"

text \<open>\<open>x > 0\<close> and \<open>x >= 0\<close> on floats; both are false of a NaN.\<close>

fun fpos :: "pyfloat \<Rightarrow> bool" where
  "fpos (Fin a) = (0 < a)"
| "fpos PosInf = True"
| "fpos x = False"

fun nonneg_pyfloat :: "pyfloat \<Rightarrow> bool" where
  "nonneg_pyfloat (Fin a) = (0 \<le> a)"
| "nonneg_pyfloat PosInf = True"
| "nonneg_pyfloat x = False"

subsection \<open>Responses: \<open>app/schema.py\<close>\<close>

record ClassificationCandidate =
  label :: string
  confidence :: real

record InferenceResponse =
  top1 :: ClassificationCandidate
  top5 :: "ClassificationCandidate list"
  latency_ms :: pyfloat
  throughput_fps :: pyfloat
  engine :: string
  batch_size :: nat

text \<open>The constructors validate the constrained fields and raise when one is out of range.\<close>

definition ClassificationCandidate_new :: "string \<Rightarrow> real \<Rightarrow> error + ClassificationCandidate" where
  "ClassificationCandidate_new l c =
     (if 0 \<le> c \<and> c \<le> 1 then Inr \<lparr> label = l, confidence = c \<rparr>
      else Inl (ValidationError ''confidence''))"

definition InferenceResponse_new ::
  "ClassificationCandidate \<Rightarrow> ClassificationCandidate list \<Rightarrow> pyfloat \<Rightarrow> pyfloat \<Rightarrow> string \<Rightarrow> nat
     \<Rightarrow> error + InferenceResponse" where
  "InferenceResponse_new t1 t5 lat thr eng bs =
     (if \<not> nonneg_pyfloat lat then Inl (ValidationError ''latency_ms'')
      else if \<not> nonneg_pyfloat thr then Inl (ValidationError ''throughput_fps'')
      else if \<not> 0 < bs then Inl (ValidationError ''batch_size'')
      else Inr \<lparr> top1 = t1, top5 = t5, latency_ms = lat, throughput_fps = thr,
                 engine = eng, batch_size = bs \<rparr>)"

subsection \<open>Prediction\<close>

text \<open>
  The library calls of \<open>predict\<close>, over abstract images and tensors: \<open>Image.open\<close>
  (\<open>Inl UnidentifiedImageError\<close> when the bytes are not recognised as an image), the two
  preprocessing pipelines, the tensor operations, the forward passes, which return the
  batch of output vectors, and the order in which \<open>torch.topk\<close> lists the indices of
  equal scores (the library does not fix it): the index of lower rank comes first.
\<close>

record ('img, 'ten) torch_ops =
  image_open :: "bytes \<Rightarrow> error + 'img"
  cupy_transform :: "nat \<Rightarrow> 'img \<Rightarrow> 'ten"
  torch_transform :: "nat \<Rightarrow> 'img \<Rightarrow> 'ten"
  tensor_dim :: "'ten \<Rightarrow> nat"
  unsqueeze0 :: "'ten \<Rightarrow> 'ten"
  tensor_to :: "torch_device \<Rightarrow> 'ten \<Rightarrow> 'ten"
  tensor_half :: "'ten \<Rightarrow> 'ten"
  shape0 :: "'ten \<Rightarrow> nat"
  trt_forward :: "trt_module \<Rightarrow> 'ten \<Rightarrow> real list list"
  torch_forward :: "torch_module \<Rightarrow> 'ten \<Rightarrow> real list list"
  tie_rank :: "nat \<Rightarrow> nat"

text \<open>The four readings of \<open>time.perf_counter\<close>, in seconds: the values of four doubles.\<close>

record timings =
  preprocess_start :: real
  preprocess_end :: real
  exec_start :: real
  exec_end :: real

datatype run_event =
    EvImageOpen
  | EvPreprocess preprocessor
  | EvSynchronize
  | EvToDevice torch_device
  | EvForward string

record predict_outcome =
  result :: "error + InferenceResponse"
  events :: "run_event list"
  engine_after :: ResNet18Engine

fun preprocessor_call :: "('img, 'ten) torch_ops \<Rightarrow> preprocessor \<Rightarrow> 'img \<Rightarrow> 'ten" where
  "preprocessor_call ops (CuPyPreprocessor sz) img = cupy_transform ops sz img"
| "preprocessor_call ops (TorchPreprocessor sz) img = torch_transform ops sz img"

definition ensure_batch :: "('img, 'ten) torch_ops \<Rightarrow> 'ten \<Rightarrow> 'ten" where
  "ensure_batch ops tensor = (if tensor_dim ops tensor = 3 then unsqueeze0 ops tensor else tensor)"

definition to_device :: "('img, 'ten) torch_ops \<Rightarrow> ResNet18Engine \<Rightarrow> 'ten \<Rightarrow> 'ten" where
  "to_device ops self tensor =
     (if is_cuda (device self)
      then (let t = tensor_to ops (device self) tensor
            in if fp16 self then tensor_half ops t else t)
      else tensor)"

text \<open>The body of \<open>with torch.no_grad()\<close>: the outputs and the name of the backend that ran.\<close>

definition execute ::
  "('img, 'ten) torch_ops \<Rightarrow> ResNet18Engine \<Rightarrow> 'ten \<Rightarrow> error + real list list \<times> string" where
  "execute ops self tensor =
     (case trt_module_of self of
        Some trt \<Rightarrow> Inr (trt_forward ops trt tensor, ''TensorRT'')
      | None \<Rightarrow>
          (case torch_model self of
             None \<Rightarrow> Inl AssertionError
           | Some m \<Rightarrow> Inr (torch_forward ops m tensor, ''PyTorch'')))"

text \<open>\<open>torch.softmax\<close> over a vector, in exact arithmetic.\<close>

definition softmax :: "real list \<Rightarrow> real list" where
  "softmax xs = map (\<lambda>x. exp x / sum_list (map exp xs)) xs"

text \<open>
  \<open>torch.topk(scores, k)\<close>: the \<open>k\<close> largest scores in descending order, each with its
  index; it raises when the vector has fewer than \<open>k\<close> entries. The entries are put in
  the order of their rank first, and the sort by score is stable, so that equal scores
  come out in the order of their rank.
\<close>

definition topk :: "(nat \<Rightarrow> nat) \<Rightarrow> nat \<Rightarrow> real list \<Rightarrow> error + (real \<times> nat) list" where
  "topk rank k scores =
     (if length scores < k then Inl (RuntimeError ''selected index k out of range'')
      else Inr (take k (sort_key (\<lambda>p. - fst p)
                          (sort_key (\<lambda>p. rank (snd p)) (zip scores [0 ..< length scores])))))"

text \<open>The list comprehension that builds the candidates; \<open>labels[idx]\<close> raises out of range.\<close>

fun top_candidates :: "string list \<Rightarrow> (real \<times> nat) list \<Rightarrow> error + ClassificationCandidate list" where
  "top_candidates lbls [] = Inr []"
| "top_candidates lbls ((score, idx) # rest) =
     (if \<not> idx < length lbls then Inl IndexError
      else (case ClassificationCandidate_new (lbls ! idx) score of
              Inl e \<Rightarrow> Inl e
            | Inr c \<Rightarrow>
                (case top_candidates lbls rest of
                   Inl e \<Rightarrow> Inl e
                 | Inr cs \<Rightarrow> Inr (c # cs))))"

text \<open>
  Lines 227 and 228: \<open>1000.0 / latency_ms if latency_ms > 0 else float("inf")\<close>, in
  double precision.
\<close>

definition throughput_of :: "pyfloat \<Rightarrow> error + pyfloat" where
  "throughput_of lat = (if fpos lat then fdiv (Fin 1000) lat else Inr PosInf)"

text \<open>
  The rest of \<open>predict\<close> after the forward pass: the ranking, the latency, the
  throughput and the response.
\<close>

definition postprocess ::
  "(nat \<Rightarrow> nat) \<Rightarrow> string list \<Rightarrow> real list list \<Rightarrow> string \<Rightarrow> pyfloat \<Rightarrow> pyfloat \<Rightarrow> nat
     \<Rightarrow> error + InferenceResponse" where
  "postprocess rank lbls outputs engine_name preprocess_ms exec_ms bs =
     (case outputs of
        [] \<Rightarrow> Inl IndexError
      | out0 # _ \<Rightarrow>
          (case topk rank 5 (softmax out0) of
             Inl e \<Rightarrow> Inl e
           | Inr best \<Rightarrow>
               (case top_candidates lbls best of
                  Inl e \<Rightarrow> Inl e
                | Inr cands \<Rightarrow>
                    (let lat = fadd preprocess_ms exec_ms
                     in case throughput_of lat of
                          Inl e \<Rightarrow> Inl e
                        | Inr throughput \<Rightarrow>
                            (case cands of
                               [] \<Rightarrow> Inl IndexError
                             | c0 # _ \<Rightarrow>
                                 InferenceResponse_new c0 cands lat throughput engine_name bs)))))"

text \<open>\<open>(time.perf_counter() - start) * 1000\<close>, in double precision.\<close>

definition elapsed_ms :: "real \<Rightarrow> real \<Rightarrow> pyfloat" where
  "elapsed_ms start stop = fmul (fsub (Fin stop) (Fin start)) (Fin 1000)"

definition predict ::
  "('img, 'ten) torch_ops \<Rightarrow> ResNet18Engine \<Rightarrow> bytes \<Rightarrow> timings \<Rightarrow> predict_outcome" where
  "predict ops self image_bytes T =
     (case image_open ops image_bytes of
        Inl e \<Rightarrow>
          \<lparr> result = Inl (if e = UnidentifiedImageError
                          then ValueError ''Provided file is not a valid image.'' else e),
            events = [EvImageOpen],
            engine_after = self \<rparr>
      | Inr img \<Rightarrow>
          (let inputs = preprocessor_call ops (preprocessor_of self) img;
               sync = (if is_cuda (device self) then [EvSynchronize] else []);
               preprocess_ms = elapsed_ms (preprocess_start T) (preprocess_end T);
               tensor = to_device ops self (ensure_batch ops inputs);
               moved = (if is_cuda (device self) then [EvToDevice (device self)] else []);
               before = [EvImageOpen, EvPreprocess (preprocessor_of self)] @ sync @ moved
           in case execute ops self tensor of
                Inl e \<Rightarrow> \<lparr> result = Inl e, events = before, engine_after = self \<rparr>
              | Inr (outputs, engine_name) \<Rightarrow>
                  (let exec_ms = elapsed_ms (exec_start T) (exec_end T)
                   in \<lparr> result = postprocess (tie_rank ops) (labels self) outputs engine_name
                                    preprocess_ms exec_ms (shape0 ops tensor),
                        events = before @ [EvForward engine_name] @ sync,
                        engine_after = self \<rparr>)))"


subsection \<open>The singleton accessor \<open>get_engine\<close> under interleaving\<close>

text \<open>
  Each thread calls \<open>get_engine\<close> once. A thread's position is the next statement it
  runs: the unguarded test (line 247), the acquisition of \<open>_ENGINE_LOCK\<close> (248), the
  guarded test (249), the call of the constructor and the assignment (250, two steps),
  the release at the end of the \<open>with\<close> block and the \<open>return\<close> (251). The
  interpreter runs one thread at a time, so a run is a schedule: the list of the
  threads that take the next step, in order. An instance is named by the number of the
  construction that made it; \<open>ctor_ok k\<close> tells whether construction number \<open>k\<close>
  returns or raises, in which case the \<open>with\<close> block releases the lock and the
  exception leaves \<open>get_engine\<close>.
\<close>

datatype pc =
    AtCheck1
  | AtAcquire
  | AtCheck2
  | AtConstruct
  | AtStore nat
  | AtRelease
  | AtReleaseRaise
  | AtReturn
  | Returned "nat option"
  | Raised

record shared =
  ENGINE :: "nat option"
  ENGINE_LOCK :: bool
  constructions :: nat
  pcs :: "nat \<Rightarrow> pc"

definition initial :: shared where
  "initial = \<lparr> ENGINE = None, ENGINE_LOCK = False, constructions = 0, pcs = (\<lambda>t. AtCheck1) \<rparr>"

definition goto :: "nat \<Rightarrow> pc \<Rightarrow> shared \<Rightarrow> shared" where
  "goto t p s = s\<lparr>pcs := (pcs s)(t := p)\<rparr>"

definition step :: "(nat \<Rightarrow> bool) \<Rightarrow> nat \<Rightarrow> shared \<Rightarrow> shared" where
  "step ctor_ok t s =
     (case pcs s t of
        AtCheck1 \<Rightarrow> if ENGINE s = None then goto t AtAcquire s else goto t AtReturn s
      | AtAcquire \<Rightarrow> if ENGINE_LOCK s then s else goto t AtCheck2 (s\<lparr>ENGINE_LOCK := True\<rparr>)
      | AtCheck2 \<Rightarrow> if ENGINE s = None then goto t AtConstruct s else goto t AtRelease s
      | AtConstruct \<Rightarrow>
          (let k = constructions s in
           goto t (if ctor_ok k then AtStore k else AtReleaseRaise) (s\<lparr>constructions := Suc k\<rparr>))
      | AtStore i \<Rightarrow> goto t AtRelease (s\<lparr>ENGINE := Some i\<rparr>)
      | AtRelease \<Rightarrow> goto t AtReturn (s\<lparr>ENGINE_LOCK := False\<rparr>)
      | AtReleaseRaise \<Rightarrow> goto t Raised (s\<lparr>ENGINE_LOCK := False\<rparr>)
      | AtReturn \<Rightarrow> goto t (Returned (ENGINE s)) s
      | Returned v \<Rightarrow> s
      | Raised \<Rightarrow> s)"

fun run :: "(nat \<Rightarrow> bool) \<Rightarrow> nat list \<Rightarrow> shared \<Rightarrow> shared" where
  "run ctor_ok [] s = s"
| "run ctor_ok (t # schedule) s = run ctor_ok schedule (step ctor_ok t s)"

text \<open>A thread is inside the \<open>with\<close> block.\<close>

fun holds_lock :: "pc \<Rightarrow> bool" where
  "holds_lock AtCheck2 = True"
| "holds_lock AtConstruct = True"
| "holds_lock (AtStore i) = True"
| "holds_lock AtRelease = True"
| "holds_lock AtReleaseRaise = True"
| "holds_lock p = False"


text \<open>
  What holds in every state a schedule can reach. About one thread, by its position: a
  thread about to construct or to store sees no engine yet, and the instance it is
  about to store is the one of the last construction, which returned; a thread leaving
  the block normally, or about to return, sees the engine; a thread that raised did so
  because a construction raised; a value that was returned is the stored engine.
\<close>

fun local_ok :: "(nat \<Rightarrow> bool) \<Rightarrow> shared \<Rightarrow> pc \<Rightarrow> bool" where
  "local_ok ctor_ok s AtConstruct = (ENGINE s = None)"
| "local_ok ctor_ok s (AtStore i) = (ENGINE s = None \<and> Suc i = constructions s \<and> ctor_ok i)"
| "local_ok ctor_ok s AtRelease = (ENGINE s \<noteq> None)"
| "local_ok ctor_ok s AtReturn = (ENGINE s \<noteq> None)"
| "local_ok ctor_ok s AtReleaseRaise = (\<exists>k < constructions s. \<not> ctor_ok k)"
| "local_ok ctor_ok s Raised = (\<exists>k < constructions s. \<not> ctor_ok k)"
| "local_ok ctor_ok s (Returned v) = (v = ENGINE s \<and> v \<noteq> None)"
| "local_ok ctor_ok s p = True"

definition mutex :: "(nat \<Rightarrow> pc) \<Rightarrow> bool" where
  "mutex P \<longleftrightarrow> (\<forall>t u. holds_lock (P t) \<and> holds_lock (P u) \<longrightarrow> t = u)"

definition some_holder :: "(nat \<Rightarrow> pc) \<Rightarrow> bool" where
  "some_holder P \<longleftrightarrow> (\<exists>t. holds_lock (P t))"

definition storing :: "(nat \<Rightarrow> pc) \<Rightarrow> bool" where
  "storing P \<longleftrightarrow> (\<exists>t i. P t = AtStore i)"

text \<open>
  About the whole state: at most one thread is inside the \<open>with\<close> block, and the lock
  is taken exactly then; the engine, once stored, is the instance of the last
  construction, which returned; every construction before the last one raised, and so
  did the last one when there is no engine and nobody is about to store one.
\<close>

definition invariant :: "(nat \<Rightarrow> bool) \<Rightarrow> shared \<Rightarrow> bool" where
  "invariant ctor_ok s \<longleftrightarrow>
     mutex (pcs s)
   \<and> (ENGINE_LOCK s \<longleftrightarrow> some_holder (pcs s))
   \<and> (\<forall>t. local_ok ctor_ok s (pcs s t))
   \<and> (\<forall>i. ENGINE s = Some i \<longrightarrow> Suc i = constructions s \<and> ctor_ok i)
   \<and> (\<forall>k. Suc k < constructions s \<longrightarrow> \<not> ctor_ok k)
   \<and> (ENGINE s = None \<and> \<not> storing (pcs s) \<longrightarrow> (\<forall>k < constructions s. \<not> ctor_ok k))"

text \<open>
  For progress: the number of steps a thread still has to take when nothing holds it
  up, and the condition under which nothing does (the lock is free, or the thread
  itself is inside the block).
\<close>

fun steps_left :: "pc \<Rightarrow> nat" where
  "steps_left AtCheck1 = 7"
| "steps_left AtAcquire = 6"
| "steps_left AtCheck2 = 5"
| "steps_left AtConstruct = 4"
| "steps_left (AtStore i) = 3"
| "steps_left AtRelease = 2"
| "steps_left AtReleaseRaise = 1"
| "steps_left AtReturn = 1"
| "steps_left (Returned v) = 0"
| "steps_left Raised = 0"

definition unblocked :: "nat \<Rightarrow> shared \<Rightarrow> bool" where
  "unblocked t s \<longleftrightarrow> \<not> ENGINE_LOCK s \<or> holds_lock (pcs s t)"

section \<open>Test doubles\<close>

text \<open>The defaults of \<open>config.Settings\<close>, with the engine path relative to the working directory.\<close>

definition default_settings :: Settings where
  "default_settings =
     \<lparr> model_fp16 = True,
       model_engine_path = [''artifacts'', ''resnet18_fp16_engine.tsrt''],
       model_torch_weights = None,
       cfg_device = Cuda 0,
       metrics_update_interval_s = 2,
       dcgm_field_ids = [100, 101, 203, 204, 150, 155, 232],
       cfg_allow_cpu_fallback = True,
       cfg_max_batch_size = 8 \<rparr>"

text \<open>
  A host with CUDA, CuPy and Torch-TensorRT; one with none of them; one that is also
  offline. On each, the only bytes that \<open>torch.jit.load\<close> accepts are those that
  \<open>torch.jit.save\<close> writes, the only weight file is \<open>resnet18.pth\<close>, and the operating
  system refuses nothing.
\<close>

definition gpu_host :: runtime_env where
  "gpu_host =
     \<lparr> cuda_is_available = True, cupy_imported = True, torch_tensorrt_imported = True,
       torch_tensorrt_has_Device = True, pretrained_available = True,
       categories = [''tench'', ''goldfish'', ''shark'', ''ray'', ''cock'', ''hen''],
       torch_load_fault = (\<lambda>p. if p = ''resnet18.pth'' then None else Some FileNotFoundError),
       load_state_dict_fault = (\<lambda>p. None),
       jit_load_fault =
         (\<lambda>b. if b = ''serialized'' then None
              else Some (RuntimeError ''PytorchStreamReader failed reading zip archive'')),
       compile_fault = (\<lambda>m ins ps. None),
       jit_save_fault = (\<lambda>m. None),
       jit_save = (\<lambda>m. ''serialized''),
       os_fault = (\<lambda>c. None) \<rparr>"

definition cpu_host :: runtime_env where
  "cpu_host =
     gpu_host\<lparr>cuda_is_available := False, cupy_imported := False,
              torch_tensorrt_imported := False, torch_tensorrt_has_Device := False\<rparr>"

definition offline_host :: runtime_env where
  "offline_host = cpu_host\<lparr>pretrained_available := False\<rparr>"

text \<open>
  Disks: an empty one; one with an engine file written by an earlier run; one where the
  file at the engine path is not a TorchScript archive; one where a regular file has the
  name of the parent directory.
\<close>

definition empty_disk :: build_state where
  "empty_disk = \<lparr> disk = \<lparr> files = Map.empty, dirs = {[]} \<rparr>, build_log = [] \<rparr>"

definition cached_disk :: build_state where
  "cached_disk =
     \<lparr> disk = \<lparr> files = [[''artifacts'', ''resnet18_fp16_engine.tsrt''] \<mapsto> ''serialized''],
                dirs = {[], [''artifacts'']} \<rparr>,
       build_log = [] \<rparr>"

definition stale_disk :: build_state where
  "stale_disk =
     \<lparr> disk = \<lparr> files = [[''artifacts'', ''resnet18_fp16_engine.tsrt''] \<mapsto> ''old engine''],
                dirs = {[], [''artifacts'']} \<rparr>,
       build_log = [] \<rparr>"

definition blocked_disk :: build_state where
  "blocked_disk =
     \<lparr> disk = \<lparr> files = [[''artifacts''] \<mapsto> ''notes''], dirs = {[]} \<rparr>, build_log = [] \<rparr>"

text \<open>The engine that \<open>cpu_host\<close> builds from the default settings.\<close>

definition cpu_engine :: ResNet18Engine where
  "cpu_engine =
     \<lparr> device = Cpu, fp16 = True, max_batch_size = 8, allow_cpu_fallback = True,
       engine_path = [''artifacts'', ''resnet18_fp16_engine.tsrt''],
       labels = [''tench'', ''goldfish'', ''shark'', ''ray'', ''cock'', ''hen''],
       preprocessor_of = TorchPreprocessor 224,
       torch_model = Some \<lparr> m_weights = Pretrained, m_eval = True, m_device = Cpu, m_half = False \<rparr>,
       trt_module_of = None \<rparr>"

text \<open>The engine under construction on \<open>gpu_host\<close> when \<open>_load_or_compile_trt\<close> is called, and its model.\<close>

definition gpu_model :: torch_module where
  "gpu_model = \<lparr> m_weights = Pretrained, m_eval = True, m_device = Cuda 0, m_half = True \<rparr>"

definition gpu_engine :: ResNet18Engine where
  "gpu_engine =
     \<lparr> device = Cuda 0, fp16 = True, max_batch_size = 8, allow_cpu_fallback = True,
       engine_path = [''artifacts'', ''resnet18_fp16_engine.tsrt''],
       labels = [''tench'', ''goldfish'', ''shark'', ''ray'', ''cock'', ''hen''],
       preprocessor_of = CuPyPreprocessor 224,
       torch_model = Some gpu_model,
       trt_module_of = None \<rparr>"

text \<open>
  Library calls over toy images and tensors (natural numbers): only the empty payload is
  not an image, and every forward pass returns one vector of six logits.
\<close>

definition toy_ops :: "(nat, nat) torch_ops" where
  "toy_ops =
     \<lparr> image_open = (\<lambda>b. if b = [] then Inl UnidentifiedImageError else Inr (length b)),
       cupy_transform = (\<lambda>sz img. img),
       torch_transform = (\<lambda>sz img. img),
       tensor_dim = (\<lambda>t. 3),
       unsqueeze0 = (\<lambda>t. t),
       tensor_to = (\<lambda>d t. t),
       tensor_half = (\<lambda>t. t),
       shape0 = (\<lambda>t. 1),
       trt_forward = (\<lambda>m t. [[ln 1, ln 4, ln 2, ln 3, ln 6, ln 4]]),
       torch_forward = (\<lambda>m t. [[ln 1, ln 4, ln 2, ln 3, ln 6, ln 4]]),
       tie_rank = (\<lambda>i. i) \<rparr>"

text \<open>The same library, where Pillow refuses the payload as a decompression bomb.\<close>

definition bomb_ops :: "(nat, nat) torch_ops" where
  "bomb_ops = toy_ops\<lparr>image_open := (\<lambda>b. Inl DecompressionBombError)\<rparr>"

text \<open>
  Clock readings, all of them doubles: 7.8125 ms of preprocessing and 31.25 ms of
  execution; and 0.9765625 ms and 72.265625 ms, a latency of 73.2421875 ms.
\<close>

definition toy_timings :: timings where
  "toy_timings = \<lparr> preprocess_start = 0, preprocess_end = 1 / 128, exec_start = 1 / 64, exec_end = 3 / 64 \<rparr>"

definition slow_timings :: timings where
  "slow_timings =
     \<lparr> preprocess_start = 0, preprocess_end = 1 / 1024, exec_start = 1 / 1024, exec_end = 75 / 1024 \<rparr>"

text \<open>Monitoring stacks: NVML only, nothing at all, and a working DCGM daemon.\<close>

definition nvml_only :: telemetry_env where
  "nvml_only =
     \<lparr> pydcgm_installed = False, dcgm_system_ok = False, dcgm_gpus = [], dcgm_watch_ok = False,
       dcgm_values = (\<lambda>d t. Map.empty),
       pynvml_installed = True, nvml_init_ok = True, nvml_handle0 = Some 0,
       nvml_read = (\<lambda>h t. \<lparr> util_gpu = 50, util_memory = 25, mem_used = 1048576,
                              mem_total = 8388608, power_usage = 150000,
                              enforced_power_limit = 250000, temperature = 55 \<rparr>),
       nvml_name = (\<lambda>h. ''Tesla T4'') \<rparr>"

definition no_monitoring :: telemetry_env where
  "no_monitoring = nvml_only\<lparr>pynvml_installed := False\<rparr>"

definition dcgm_host :: telemetry_env where
  "dcgm_host = nvml_only\<lparr>pydcgm_installed := True, dcgm_system_ok := True, dcgm_gpus := [0],
                          dcgm_watch_ok := True\<rparr>"


section \<open>Telemetry: properties\<close>

lemma first_constructed_two:
  "first_constructed [f, g] E =
     (case f E of Inr b \<Rightarrow> Some b
      | Inl e \<Rightarrow> (case g E of Inr b \<Rightarrow> Some b | Inl e' \<Rightarrow> None))"
  by (simp split: sum.splits)

lemma DCGM_source: "DCGMBackend_init E = Inr b \<Longrightarrow> backend_source b = ''dcgm''"
  by (auto simp: DCGMBackend_init_def split: if_splits list.splits)

lemma NVML_source: "NVMLBackend_init E = Inr b \<Longrightarrow> backend_source b = ''nvml''"
  by (auto simp: NVMLBackend_init_def split: if_splits option.splits)

text \<open>
  C4. The collector probes the DCGM backend, then the NVML backend, and keeps the first
  whose constructor returns; the stub is used when both raise. So the active backend is
  determined for every outcome of the two constructors (the construction of the
  collector has no failing branch): when DCGM raises and NVML is built the source is
  "nvml", when both raise the backend is the stub with source "stub", and when DCGM is
  built the source is "dcgm".
\<close>

theorem collector_probe_order:
  "backend_of (MetricsCollector_init E) =
     (case DCGMBackend_init E of
        Inr b \<Rightarrow> b
      | Inl e \<Rightarrow> (case NVMLBackend_init E of Inr b \<Rightarrow> b | Inl e' \<Rightarrow> StubBackend))
   \<and> (isl (DCGMBackend_init E) \<and> \<not> isl (NVMLBackend_init E)
        \<longrightarrow> backend_source (backend_of (MetricsCollector_init E)) = ''nvml'')
   \<and> (isl (DCGMBackend_init E) \<and> isl (NVMLBackend_init E)
        \<longrightarrow> backend_of (MetricsCollector_init E) = StubBackend
          \<and> backend_source (backend_of (MetricsCollector_init E)) = ''stub'')
   \<and> (\<not> isl (DCGMBackend_init E)
        \<longrightarrow> backend_source (backend_of (MetricsCollector_init E)) = ''dcgm'')"
proof -
  have eq: "backend_of (MetricsCollector_init E) =
     (case DCGMBackend_init E of
        Inr b \<Rightarrow> b
      | Inl e \<Rightarrow> (case NVMLBackend_init E of Inr b \<Rightarrow> b | Inl e' \<Rightarrow> StubBackend))"
    by (simp add: MetricsCollector_init_def initialize_backend_def split: sum.splits)
  show ?thesis
    unfolding eq
    by (auto simp: isl_def DCGM_source NVML_source split: sum.splits)
qed

theorem collector_probe_order_witness:
  "(isl (DCGMBackend_init nvml_only) \<and> \<not> isl (NVMLBackend_init nvml_only))
   \<and> backend_source (backend_of (MetricsCollector_init nvml_only)) = ''nvml''
   \<and> (isl (DCGMBackend_init no_monitoring) \<and> isl (NVMLBackend_init no_monitoring))
   \<and> backend_of (MetricsCollector_init no_monitoring) = StubBackend
   \<and> backend_source (backend_of (MetricsCollector_init no_monitoring)) = ''stub''
   \<and> \<not> isl (DCGMBackend_init dcgm_host)
   \<and> backend_source (backend_of (MetricsCollector_init dcgm_host)) = ''dcgm''"
proof -
  have h1: "isl (DCGMBackend_init nvml_only) \<and> \<not> isl (NVMLBackend_init nvml_only)"
    by (simp add: DCGMBackend_init_def NVMLBackend_init_def nvml_only_def)
  have h2: "isl (DCGMBackend_init no_monitoring) \<and> isl (NVMLBackend_init no_monitoring)"
    by (simp add: DCGMBackend_init_def NVMLBackend_init_def nvml_only_def no_monitoring_def)
  have h3: "\<not> isl (DCGMBackend_init dcgm_host)"
    by (simp add: DCGMBackend_init_def nvml_only_def dcgm_host_def)
  show ?thesis
    using h1 h2 h3 collector_probe_order [of nvml_only] collector_probe_order [of no_monitoring]
      collector_probe_order [of dcgm_host]
    by blast
qed









section \<open>The engine: construction and the artifact cache\<close>

lemma parent_shorter: "p \<noteq> [] \<Longrightarrow> p \<notin> set (ancestors_and_self (parent p))"
proof
  assume ne: "p \<noteq> []" and "p \<in> set (ancestors_and_self (parent p))"
  then obtain k where "p = take k (butlast p)"
    by (auto simp: ancestors_and_self_def parent_def)
  then have "length p = length (take k (butlast p))" by (rule arg_cong)
  moreover have "length (take k (butlast p)) \<le> length p - 1" by simp
  moreover from ne have "0 < length p" by simp
  ultimately show False by arith
qed

lemma self_in_ancestors: "p \<in> set (ancestors_and_self p)"
proof -
  have "take (length p) p \<in> (\<lambda>k. take k p) ` {0 ..< Suc (length p)}"
    by (rule imageI) simp
  then show ?thesis by (simp add: ancestors_and_self_def)
qed

lemma can_mkdir_no_file: "can_mkdir R p st \<Longrightarrow> files (disk st) p = None"
  using self_in_ancestors [of p] by (auto simp: can_mkdir_def list_ex_iff)

lemma can_mkdir_disk: "disk st1 = disk st \<Longrightarrow> can_mkdir R p st1 = can_mkdir R p st"
  by (simp add: can_mkdir_def)

lemma mkdir_ok:
  assumes "can_mkdir R p st"
  shows "mkdir_parents R p st =
           (Inr (), logged (EvMkdir p)
                      (st\<lparr>disk := (disk st)\<lparr>dirs := dirs (disk st) \<union> set (ancestors_and_self p)\<rparr>\<rparr>))"
  using assms can_mkdir_no_file [OF assms] by (simp add: mkdir_parents_def can_mkdir_def)

lemma mkdir_refused:
  assumes "\<not> can_mkdir R p st"
  shows "isl (fst (mkdir_parents R p st)) \<and> snd (mkdir_parents R p st) = logged (EvMkdir p) st"
  using assms by (auto simp: mkdir_parents_def can_mkdir_def split: option.splits)

lemma mkdir_refused_call:
  assumes "\<not> can_mkdir R (parent (engine_path self)) st"
  shows "isl (fst (load_or_compile_trt R self model st))
       \<and> snd (load_or_compile_trt R self model st) = logged (EvMkdir (parent (engine_path self))) st"
proof (cases "mkdir_parents R (parent (engine_path self)) st")
  case (Pair r st1)
  with mkdir_refused [OF assms] have "isl r" "st1 = logged (EvMkdir (parent (engine_path self))) st"
    by simp_all
  with Pair show ?thesis by (cases r) (simp_all add: load_or_compile_trt_def)
qed

lemma load_branch:
  assumes "can_mkdir R (parent (engine_path self)) st"
    "files (disk st) (engine_path self) = Some b"
    "os_fault R (EvReadBytes (engine_path self)) = None" "jit_load_fault R b = None"
  shows "load_or_compile_trt R self model st =
           (Inr (Some (JitLoaded b (device self))),
            st\<lparr>disk := (disk st)\<lparr>dirs := dirs (disk st) \<union> set (ancestors_and_self (parent (engine_path self)))\<rparr>,
               build_log := build_log st @ [EvMkdir (parent (engine_path self)), EvExists (engine_path self),
                                            EvReadBytes (engine_path self), EvJitLoad]\<rparr>)"
  using assms(2-)
  by (simp add: load_or_compile_trt_def mkdir_ok [OF assms(1)] path_exists_def read_bytes_def
        logged_def Let_def)

text \<open>With a file at the path the call reads or raises; it never compiles and never writes.\<close>

lemma file_never_replaced:
  assumes "files (disk st) (engine_path self) = Some b"
  shows "files (disk (snd (load_or_compile_trt R self model st))) = files (disk st)
       \<and> (\<exists>evs. build_log (snd (load_or_compile_trt R self model st)) = build_log st @ evs
              \<and> set evs \<subseteq> {EvMkdir (parent (engine_path self)), EvExists (engine_path self),
                             EvReadBytes (engine_path self), EvJitLoad})"
proof (cases "can_mkdir R (parent (engine_path self)) st")
  case False
  from mkdir_refused_call [OF False, of model] show ?thesis by (simp add: logged_def)
next
  case True
  show ?thesis
    using assms
    by (auto simp: load_or_compile_trt_def mkdir_ok [OF True] path_exists_def read_bytes_def
          logged_def Let_def split: option.splits)
qed

lemma load_fails:
  assumes "can_mkdir R (parent (engine_path self)) st"
    "files (disk st) (engine_path self) = Some b"
    "os_fault R (EvReadBytes (engine_path self)) \<noteq> None \<or> jit_load_fault R b \<noteq> None"
  shows "isl (fst (load_or_compile_trt R self model st))"
  using assms(2-)
  by (auto simp: load_or_compile_trt_def mkdir_ok [OF assms(1)] path_exists_def read_bytes_def
        logged_def Let_def split: option.splits)

lemma load_prefix:
  assumes "can_mkdir R (parent (engine_path self)) st"
    "files (disk st) (engine_path self) = Some b"
  shows "dirs (disk (snd (load_or_compile_trt R self model st))) =
           dirs (disk st) \<union> set (ancestors_and_self (parent (engine_path self)))
       \<and> (\<exists>rest. build_log (snd (load_or_compile_trt R self model st)) =
              build_log st @ EvMkdir (parent (engine_path self)) # EvExists (engine_path self)
                # EvReadBytes (engine_path self) # rest
            \<and> set rest \<subseteq> {EvJitLoad})"
  using assms(2)
  by (auto simp: load_or_compile_trt_def mkdir_ok [OF assms(1)] path_exists_def read_bytes_def
        logged_def Let_def split: option.splits)

lemma compile_branch:
  assumes "can_mkdir R (parent (engine_path self)) st"
    "files (disk st) (engine_path self) = None" "engine_path self \<notin> dirs (disk st)"
    "engine_path self \<noteq> []" "torch_tensorrt_imported R"
    "compile_fault R model (compile_inputs_of R self) (enabled_precisions_of self) = None"
    "jit_save_fault R (TrtCompiled model (compile_inputs_of R self) (enabled_precisions_of self) True) = None"
    "os_fault R (EvWriteBytes (engine_path self)) = None"
  shows "load_or_compile_trt R self model st =
           (let trt = TrtCompiled model (compile_inputs_of R self) (enabled_precisions_of self) True in
            (Inr (Some trt),
             st\<lparr>disk := (disk st)\<lparr>dirs := dirs (disk st) \<union> set (ancestors_and_self (parent (engine_path self))),
                                  files := (files (disk st))(engine_path self \<mapsto> jit_save R trt)\<rparr>,
                build_log := build_log st @ [EvMkdir (parent (engine_path self)), EvExists (engine_path self),
                               EvCompile (compile_inputs_of R self) (enabled_precisions_of self),
                               EvJitSave, EvWriteBytes (engine_path self)]\<rparr>))"
  using assms(2-) parent_shorter [of "engine_path self"] self_in_ancestors [of "parent (engine_path self)"]
  by (simp add: load_or_compile_trt_def mkdir_ok [OF assms(1)] path_exists_def write_bytes_def
        logged_def Let_def)

lemma log_starts_with_mkdir:
  "\<exists>rest. build_log (snd (load_or_compile_trt R self model st)) =
      build_log st @ EvMkdir (parent (engine_path self)) # rest"
proof (cases "can_mkdir R (parent (engine_path self)) st")
  case False
  from mkdir_refused_call [OF False, of model] show ?thesis by (simp add: logged_def)
next
  case True
  show ?thesis
    by (auto simp: load_or_compile_trt_def mkdir_ok [OF True] path_exists_def read_bytes_def
          write_bytes_def logged_def Let_def split: option.splits)
qed

lemma log_prefix:
  assumes "can_mkdir R (parent (engine_path self)) st"
  shows "\<exists>rest. build_log (snd (load_or_compile_trt R self model st)) =
      build_log st @ EvMkdir (parent (engine_path self)) # EvExists (engine_path self) # rest"
  by (auto simp: load_or_compile_trt_def mkdir_ok [OF assms] path_exists_def read_bytes_def
        write_bytes_def logged_def Let_def split: option.splits)

lemma dirs_after:
  assumes "can_mkdir R (parent (engine_path self)) st"
  shows "parent (engine_path self) \<in> dirs (disk (snd (load_or_compile_trt R self model st)))"
  using self_in_ancestors [of "parent (engine_path self)"]
  by (auto simp: load_or_compile_trt_def mkdir_ok [OF assms] path_exists_def read_bytes_def
        write_bytes_def logged_def Let_def split: option.splits)

lemma load_weights_disk: "disk (snd (load_weights R S st)) = disk st"
  by (auto simp: load_weights_def logged_def Let_def split: option.splits)

lemma load_weights_sound:
  assumes "load_weights R S st = (Inr (m, lbls), st1)"
  shows "m_weights m \<noteq> RandomInit
       \<and> disk st1 = disk st
       \<and> (pretrained_available R \<longrightarrow> m_weights m = Pretrained)
       \<and> (\<not> pretrained_available R \<longrightarrow>
            (\<exists>w. model_torch_weights S = Some w \<and> w \<noteq> [] \<and> torch_load_fault R w = None
                 \<and> load_state_dict_fault R w = None \<and> m_weights m = StateDict w))"
  using assms
  by (auto simp: load_weights_def resnet18_def logged_def Let_def split: if_splits option.splits)

lemma load_weights_unconfigured:
  assumes "\<not> pretrained_available R" "model_torch_weights S = None \<or> model_torch_weights S = Some []"
  shows "fst (load_weights R S st) =
     Inl (RuntimeError ''Unable to load pretrained ResNet18 weights. Set GAVID_MODEL_TORCH_WEIGHTS to a local .pth file.'')"
  using assms by (auto simp: load_weights_def Let_def)

lemma load_models_frame:
  assumes "load_models R S self st = (Inr e, st')"
  shows "device e = device self \<and> preprocessor_of e = preprocessor_of self
       \<and> fp16 e = fp16 self \<and> max_batch_size e = max_batch_size self
       \<and> engine_path e = engine_path self \<and> allow_cpu_fallback e = allow_cpu_fallback self"
  using assms
  by (auto simp: load_models_def Let_def split: prod.splits sum.splits if_splits)

lemma load_models_weights:
  assumes "load_models R S self st = (Inr e, st')"
  shows "\<exists>m lbls st1. load_weights R S st = (Inr (m, lbls), st1)
           \<and> (\<exists>m'. torch_model e = Some m' \<and> m_weights m' = m_weights m)"
  using assms
  by (auto simp: load_models_def Let_def split: prod.splits sum.splits if_splits)

lemma load_models_cpu_refused:
  assumes "\<not> is_cuda (device self)" "\<not> allow_cpu_fallback self"
  shows "isl (fst (load_models R S self st)) \<and> disk (snd (load_models R S self st)) = disk st"
proof (cases "load_weights R S st")
  case (Pair r st1)
  from load_weights_disk [of R S st] Pair have d: "disk st1 = disk st" by simp
  show ?thesis
  proof (cases r)
    case (Inl e)
    with Pair d show ?thesis by (simp add: load_models_def)
  next
    case (Inr ml)
    obtain m l where ml: "ml = (m, l)" by (cases ml)
    with Pair Inr d assms show ?thesis by (simp add: load_models_def Let_def)
  qed
qed

lemma select_preprocessor_total:
  "select_preprocessor R dev =
     Inr (if is_cuda dev \<and> cupy_imported R then CuPyPreprocessor 224 else TorchPreprocessor 224)"
  by (simp add: select_preprocessor_def CuPyPreprocessor_init_def)

lemma init_unfold:
  "ResNet18Engine_init R S ep dev_arg f m a st =
     load_models R S
       \<lparr> device = (if cuda_is_available R then dev_arg else Cpu),
         fp16 = f, max_batch_size = m, allow_cpu_fallback = a,
         engine_path = (case ep of Some p \<Rightarrow> p | None \<Rightarrow> model_engine_path S),
         labels = categories R,
         preprocessor_of =
           (if is_cuda (if cuda_is_available R then dev_arg else Cpu) \<and> cupy_imported R
            then CuPyPreprocessor 224 else TorchPreprocessor 224),
         torch_model = None, trt_module_of = None \<rparr> st"
  by (simp add: ResNet18Engine_init_def select_preprocessor_total Let_def)

lemma predict_frame: "engine_after (predict ops self b T) = self"
  by (simp add: predict_def Let_def split: sum.splits prod.splits)

lemma cpu_host_builds:
  "ResNet18Engine_init cpu_host default_settings None (Cuda 0) True 8 True empty_disk =
     (Inr cpu_engine, empty_disk\<lparr>build_log := [EvResnet18 Pretrained]\<rparr>)"
  by (simp add: init_unfold load_models_def load_weights_def cpu_host_def gpu_host_def
        default_settings_def empty_disk_def cpu_engine_def resnet18_def logged_def Let_def)

text \<open>The call made during construction.\<close>

lemma load_models_calls:
  assumes "load_weights R S st = (Inr (m0, lbls), st1)" "is_cuda (device self)"
    "torch_tensorrt_imported R"
  shows "\<exists>self1 m2. engine_path self1 = engine_path self \<and> disk st1 = disk st
           \<and> snd (load_models R S self st) = snd (load_or_compile_trt R self1 m2 st1)"
proof -
  define m2 where "m2 = (let m = m0\<lparr>m_eval := True, m_device := device self\<rparr>
                        in if fp16 self then m\<lparr>m_half := True\<rparr> else m)"
  define self1 where "self1 = self\<lparr>labels := lbls, torch_model := Some m2\<rparr>"
  have ep: "engine_path self1 = engine_path self" by (simp add: self1_def)
  have sn: "snd (load_models R S self st) = snd (load_or_compile_trt R self1 m2 st1)"
    using assms by (simp add: load_models_def Let_def m2_def self1_def split: prod.splits sum.splits)
  from load_weights_disk [of R S st] assms(1) have "disk st1 = disk st" by simp
  with ep sn show ?thesis by blast
qed

text \<open>
  C2, as amended. The cache algorithm of \<open>_load_or_compile_trt\<close>. Suppose that the
  parent directory can be created (no regular file stands at it or at one of its
  ancestors, and the operating system does not refuse). When a file exists at the
  engine path, its bytes can be read and \<open>torch.jit.load\<close> accepts them, the call
  returns the module deserialized from them, the calls it makes are the directory
  creation, the existence check, the read and the load (no compilation, no write), and
  the result is the same whatever the precision flag and the batch bound are: the file
  is not checked against the configuration. When the file cannot be read or
  \<open>torch.jit.load\<close> refuses its bytes, the call raises. Whenever a file exists at the
  path, also when the call raises, the files are left as they were and nothing is
  compiled or written. When nothing exists at the path, Torch-TensorRT is imported,
  and the compilation, the serialization and the write do not raise, the call compiles
  the model for one input with minimum shape \<open>(1, 3, 224, 224)\<close>, optimal shape
  \<open>(max_batch_size // 2 + 1, 3, 224, 224)\<close> and maximum shape
  \<open>(max_batch_size, 3, 224, 224)\<close>, with the precisions \<open>{float, half}\<close> when
  \<open>fp16\<close> is set and \<open>{float}\<close> otherwise, writes the serialized module to the
  path and returns it.
\<close>

theorem load_or_compile_trt_cache:
  "(can_mkdir R (parent (engine_path self)) st
      \<and> files (disk st) (engine_path self) = Some b
      \<and> os_fault R (EvReadBytes (engine_path self)) = None
      \<and> jit_load_fault R b = None \<longrightarrow>
      fst (load_or_compile_trt R self model st) = Inr (Some (JitLoaded b (device self)))
      \<and> build_log (snd (load_or_compile_trt R self model st)) =
          build_log st @ [EvMkdir (parent (engine_path self)), EvExists (engine_path self),
                          EvReadBytes (engine_path self), EvJitLoad]
      \<and> fst (load_or_compile_trt R (self\<lparr>fp16 := f, max_batch_size := n\<rparr>) model st) =
          fst (load_or_compile_trt R self model st))
   \<and> (files (disk st) (engine_path self) = Some b \<longrightarrow>
      files (disk (snd (load_or_compile_trt R self model st))) = files (disk st)
      \<and> (\<exists>evs. build_log (snd (load_or_compile_trt R self model st)) = build_log st @ evs
             \<and> set evs \<subseteq> {EvMkdir (parent (engine_path self)), EvExists (engine_path self),
                            EvReadBytes (engine_path self), EvJitLoad}))
   \<and> (can_mkdir R (parent (engine_path self)) st
        \<and> files (disk st) (engine_path self) = Some b
        \<and> (os_fault R (EvReadBytes (engine_path self)) \<noteq> None \<or> jit_load_fault R b \<noteq> None) \<longrightarrow>
      isl (fst (load_or_compile_trt R self model st)))
   \<and> (can_mkdir R (parent (engine_path self)) st
        \<and> files (disk st) (engine_path self) = None \<and> engine_path self \<notin> dirs (disk st)
        \<and> engine_path self \<noteq> [] \<and> torch_tensorrt_imported R
        \<and> compile_fault R model (compile_inputs_of R self) (enabled_precisions_of self) = None
        \<and> jit_save_fault R
            (TrtCompiled model (compile_inputs_of R self) (enabled_precisions_of self) True) = None
        \<and> os_fault R (EvWriteBytes (engine_path self)) = None \<longrightarrow>
      (\<exists>ins dev.
          ins = \<lparr> min_shape = [1, 3, 224, 224],
                  opt_shape = [max_batch_size self div 2 + 1, 3, 224, 224],
                  max_shape = [max_batch_size self, 3, 224, 224],
                  in_dtype = (if fp16 self then Half else Float),
                  in_device = dev \<rparr>
        \<and> fst (load_or_compile_trt R self model st) =
            Inr (Some (TrtCompiled model [ins] (if fp16 self then {Float, Half} else {Float}) True))
        \<and> build_log (snd (load_or_compile_trt R self model st)) =
            build_log st @ [EvMkdir (parent (engine_path self)), EvExists (engine_path self),
                            EvCompile [ins] (if fp16 self then {Float, Half} else {Float}),
                            EvJitSave, EvWriteBytes (engine_path self)]
        \<and> files (disk (snd (load_or_compile_trt R self model st))) (engine_path self) =
            Some (jit_save R (TrtCompiled model [ins] (if fp16 self then {Float, Half} else {Float}) True))))"
proof (intro conjI impI)
  assume h: "can_mkdir R (parent (engine_path self)) st
      \<and> files (disk st) (engine_path self) = Some b
      \<and> os_fault R (EvReadBytes (engine_path self)) = None
      \<and> jit_load_fault R b = None"
  then have a: "can_mkdir R (parent (engine_path self)) st"
    "files (disk st) (engine_path self) = Some b"
    "os_fault R (EvReadBytes (engine_path self)) = None" "jit_load_fault R b = None"
    by simp_all
  show "fst (load_or_compile_trt R self model st) = Inr (Some (JitLoaded b (device self)))"
    by (simp add: load_branch [OF a])
  show "build_log (snd (load_or_compile_trt R self model st)) =
          build_log st @ [EvMkdir (parent (engine_path self)), EvExists (engine_path self),
                          EvReadBytes (engine_path self), EvJitLoad]"
    by (simp add: load_branch [OF a])
  have a': "can_mkdir R (parent (engine_path (self\<lparr>fp16 := f, max_batch_size := n\<rparr>))) st"
    "files (disk st) (engine_path (self\<lparr>fp16 := f, max_batch_size := n\<rparr>)) = Some b"
    "os_fault R (EvReadBytes (engine_path (self\<lparr>fp16 := f, max_batch_size := n\<rparr>))) = None"
    using a by simp_all
  show "fst (load_or_compile_trt R (self\<lparr>fp16 := f, max_batch_size := n\<rparr>) model st) =
          fst (load_or_compile_trt R self model st)"
    by (simp add: load_branch [OF a] load_branch [OF a' a(4)])
next
  assume a: "files (disk st) (engine_path self) = Some b"
  from file_never_replaced [OF a, of R model]
  show "files (disk (snd (load_or_compile_trt R self model st))) = files (disk st)"
    and "\<exists>evs. build_log (snd (load_or_compile_trt R self model st)) = build_log st @ evs
             \<and> set evs \<subseteq> {EvMkdir (parent (engine_path self)), EvExists (engine_path self),
                            EvReadBytes (engine_path self), EvJitLoad}"
    by simp_all
next
  assume "can_mkdir R (parent (engine_path self)) st
        \<and> files (disk st) (engine_path self) = Some b
        \<and> (os_fault R (EvReadBytes (engine_path self)) \<noteq> None \<or> jit_load_fault R b \<noteq> None)"
  then have a: "can_mkdir R (parent (engine_path self)) st"
    "files (disk st) (engine_path self) = Some b"
    "os_fault R (EvReadBytes (engine_path self)) \<noteq> None \<or> jit_load_fault R b \<noteq> None"
    by simp_all
  show "isl (fst (load_or_compile_trt R self model st))"
    by (rule load_fails [OF a])
next
  assume a: "can_mkdir R (parent (engine_path self)) st
        \<and> files (disk st) (engine_path self) = None \<and> engine_path self \<notin> dirs (disk st)
        \<and> engine_path self \<noteq> [] \<and> torch_tensorrt_imported R
        \<and> compile_fault R model (compile_inputs_of R self) (enabled_precisions_of self) = None
        \<and> jit_save_fault R
            (TrtCompiled model (compile_inputs_of R self) (enabled_precisions_of self) True) = None
        \<and> os_fault R (EvWriteBytes (engine_path self)) = None"
  then have c: "can_mkdir R (parent (engine_path self)) st"
    "files (disk st) (engine_path self) = None" "engine_path self \<notin> dirs (disk st)"
    "engine_path self \<noteq> []" "torch_tensorrt_imported R"
    "compile_fault R model (compile_inputs_of R self) (enabled_precisions_of self) = None"
    "jit_save_fault R (TrtCompiled model (compile_inputs_of R self) (enabled_precisions_of self) True) = None"
    "os_fault R (EvWriteBytes (engine_path self)) = None"
    by simp_all
  define dev where "dev = (if torch_tensorrt_has_Device R then TrtDevice ''cuda:0'' else TorchDevice ''cuda:0'')"
  define ins where "ins = \<lparr> min_shape = [1, 3, 224, 224],
                  opt_shape = [max_batch_size self div 2 + 1, 3, 224, 224],
                  max_shape = [max_batch_size self, 3, 224, 224],
                  in_dtype = (if fp16 self then Half else Float),
                  in_device = dev \<rparr>"
  have ci: "compile_inputs_of R self = [ins]"
    by (simp add: compile_inputs_of_def ins_def dev_def Let_def)
  have ep: "enabled_precisions_of self = (if fp16 self then {Float, Half} else {Float})"
    by (simp add: enabled_precisions_of_def)
  note cb = compile_branch [OF c, unfolded ci ep Let_def]
  show "\<exists>ins dev.
          ins = \<lparr> min_shape = [1, 3, 224, 224],
                  opt_shape = [max_batch_size self div 2 + 1, 3, 224, 224],
                  max_shape = [max_batch_size self, 3, 224, 224],
                  in_dtype = (if fp16 self then Half else Float),
                  in_device = dev \<rparr>
        \<and> fst (load_or_compile_trt R self model st) =
            Inr (Some (TrtCompiled model [ins] (if fp16 self then {Float, Half} else {Float}) True))
        \<and> build_log (snd (load_or_compile_trt R self model st)) =
            build_log st @ [EvMkdir (parent (engine_path self)), EvExists (engine_path self),
                            EvCompile [ins] (if fp16 self then {Float, Half} else {Float}),
                            EvJitSave, EvWriteBytes (engine_path self)]
        \<and> files (disk (snd (load_or_compile_trt R self model st))) (engine_path self) =
            Some (jit_save R (TrtCompiled model [ins] (if fp16 self then {Float, Half} else {Float}) True))"
    apply (rule exI [of _ ins], rule exI [of _ dev])
    apply (intro conjI)
       apply (rule ins_def)
      apply (simp only: cb fst_conv)
     apply (simp add: cb)
    apply (simp add: cb)
    done
qed

theorem load_or_compile_trt_cache_witness:
  "(can_mkdir gpu_host (parent (engine_path gpu_engine)) cached_disk
      \<and> files (disk cached_disk) (engine_path gpu_engine) = Some ''serialized''
      \<and> os_fault gpu_host (EvReadBytes (engine_path gpu_engine)) = None
      \<and> jit_load_fault gpu_host ''serialized'' = None)
   \<and> fst (load_or_compile_trt gpu_host gpu_engine gpu_model cached_disk) =
       Inr (Some (JitLoaded ''serialized'' (Cuda 0)))
   \<and> fst (load_or_compile_trt gpu_host (gpu_engine\<lparr>fp16 := False, max_batch_size := 1\<rparr>) gpu_model cached_disk) =
       Inr (Some (JitLoaded ''serialized'' (Cuda 0)))
   \<and> files (disk (snd (load_or_compile_trt gpu_host gpu_engine gpu_model cached_disk))) =
       files (disk cached_disk)
   \<and> (can_mkdir gpu_host (parent (engine_path gpu_engine)) stale_disk
        \<and> files (disk stale_disk) (engine_path gpu_engine) = Some ''old engine''
        \<and> jit_load_fault gpu_host ''old engine'' =
            Some (RuntimeError ''PytorchStreamReader failed reading zip archive''))
   \<and> isl (fst (load_or_compile_trt gpu_host gpu_engine gpu_model stale_disk))
   \<and> (can_mkdir gpu_host (parent (engine_path gpu_engine)) empty_disk
        \<and> files (disk empty_disk) (engine_path gpu_engine) = None
        \<and> engine_path gpu_engine \<notin> dirs (disk empty_disk)
        \<and> engine_path gpu_engine \<noteq> [] \<and> torch_tensorrt_imported gpu_host
        \<and> compile_fault gpu_host gpu_model (compile_inputs_of gpu_host gpu_engine)
            (enabled_precisions_of gpu_engine) = None
        \<and> jit_save_fault gpu_host
            (TrtCompiled gpu_model (compile_inputs_of gpu_host gpu_engine)
               (enabled_precisions_of gpu_engine) True) = None
        \<and> os_fault gpu_host (EvWriteBytes (engine_path gpu_engine)) = None)
   \<and> (\<exists>dev. fst (load_or_compile_trt gpu_host gpu_engine gpu_model empty_disk) =
         Inr (Some (TrtCompiled gpu_model
                [\<lparr> min_shape = [1, 3, 224, 224], opt_shape = [5, 3, 224, 224],
                   max_shape = [8, 3, 224, 224], in_dtype = Half, in_device = dev \<rparr>]
                {Float, Half} True)))"
proof -
  have p: "parent (engine_path gpu_engine) = [''artifacts'']"
    by (simp add: parent_def gpu_engine_def)
  have an: "ancestors_and_self [''artifacts''] = [[], [''artifacts'']]"
    by (simp add: ancestors_and_self_def upt_rec [of 0] upt_rec [of 1] upt_rec [of 2])
  have h1: "can_mkdir gpu_host (parent (engine_path gpu_engine)) cached_disk
      \<and> files (disk cached_disk) (engine_path gpu_engine) = Some ''serialized''
      \<and> os_fault gpu_host (EvReadBytes (engine_path gpu_engine)) = None
      \<and> jit_load_fault gpu_host ''serialized'' = None"
    by (simp add: parent_def an can_mkdir_def cached_disk_def gpu_engine_def gpu_host_def)
  have h2: "can_mkdir gpu_host (parent (engine_path gpu_engine)) empty_disk
        \<and> files (disk empty_disk) (engine_path gpu_engine) = None
        \<and> engine_path gpu_engine \<notin> dirs (disk empty_disk)
        \<and> engine_path gpu_engine \<noteq> [] \<and> torch_tensorrt_imported gpu_host
        \<and> compile_fault gpu_host gpu_model (compile_inputs_of gpu_host gpu_engine)
            (enabled_precisions_of gpu_engine) = None
        \<and> jit_save_fault gpu_host
            (TrtCompiled gpu_model (compile_inputs_of gpu_host gpu_engine)
               (enabled_precisions_of gpu_engine) True) = None
        \<and> os_fault gpu_host (EvWriteBytes (engine_path gpu_engine)) = None"
    by (simp add: parent_def an can_mkdir_def empty_disk_def gpu_engine_def gpu_host_def)
  have h3: "can_mkdir gpu_host (parent (engine_path gpu_engine)) stale_disk
        \<and> files (disk stale_disk) (engine_path gpu_engine) = Some ''old engine''
        \<and> jit_load_fault gpu_host ''old engine'' =
            Some (RuntimeError ''PytorchStreamReader failed reading zip archive'')"
    by (simp add: parent_def an can_mkdir_def stale_disk_def gpu_engine_def gpu_host_def)
  have g: "device gpu_engine = Cuda 0" "fp16 gpu_engine" "max_batch_size gpu_engine = 8"
    by (simp_all add: gpu_engine_def)
  from load_or_compile_trt_cache
         [where st = stale_disk and self = gpu_engine and b = "''old engine''" and R = gpu_host
            and model = gpu_model, THEN conjunct2, THEN conjunct2, THEN conjunct1] h3
  have a3: "isl (fst (load_or_compile_trt gpu_host gpu_engine gpu_model stale_disk))"
    by simp
  note t1 = load_or_compile_trt_cache
         [where st = cached_disk and self = gpu_engine and b = "''serialized''" and R = gpu_host
            and model = gpu_model and f = False and n = 1]
  from t1 [THEN conjunct1] h1
  have a: "fst (load_or_compile_trt gpu_host gpu_engine gpu_model cached_disk) =
       Inr (Some (JitLoaded ''serialized'' (Cuda 0)))
     \<and> fst (load_or_compile_trt gpu_host (gpu_engine\<lparr>fp16 := False, max_batch_size := 1\<rparr>) gpu_model cached_disk) =
       Inr (Some (JitLoaded ''serialized'' (Cuda 0)))"
    by (simp add: g)
  from t1 [THEN conjunct2, THEN conjunct1] h1
  have a2: "files (disk (snd (load_or_compile_trt gpu_host gpu_engine gpu_model cached_disk))) =
       files (disk cached_disk)"
    by blast
  from load_or_compile_trt_cache
         [where st = empty_disk and self = gpu_engine and R = gpu_host and model = gpu_model,
          THEN conjunct2, THEN conjunct2, THEN conjunct2] h2
  have b: "\<exists>dev. fst (load_or_compile_trt gpu_host gpu_engine gpu_model empty_disk) =
         Inr (Some (TrtCompiled gpu_model
                [\<lparr> min_shape = [1, 3, 224, 224], opt_shape = [5, 3, 224, 224],
                   max_shape = [8, 3, 224, 224], in_dtype = Half, in_device = dev \<rparr>]
                {Float, Half} True))"
    by (auto simp: g)
  from h1 h2 h3 a a2 a3 b show ?thesis by blast
qed

text \<open>
  The claim C2 as it was stated fails on a file that is not a TorchScript archive: the
  file exists at the engine path, and the call raises instead of returning a module.
\<close>

theorem load_or_compile_trt_cache_counterexample:
  "files (disk stale_disk) (engine_path gpu_engine) = Some ''old engine''
   \<and> fst (load_or_compile_trt gpu_host gpu_engine gpu_model stale_disk) =
       Inl (RuntimeError ''PytorchStreamReader failed reading zip archive'')"
  by (simp add: load_or_compile_trt_def mkdir_parents_def path_exists_def read_bytes_def
        logged_def Let_def parent_def ancestors_and_self_def upt_rec [of 0] upt_rec [of 1]
        upt_rec [of 2] stale_disk_def gpu_engine_def gpu_host_def)

text \<open>
  C10, as amended. Every call of \<open>_load_or_compile_trt\<close> starts by creating the parent
  directory of the engine path. When that directory can be created (no regular file
  stands at it or at one of its ancestors, and the operating system does not refuse),
  the existence check comes next and the parent directory is on the disk afterwards;
  this also holds when a serialized file is already there and the call only reads it,
  without compiling. When the directory cannot be created, the call raises with the
  disk as it was, and the existence check is never made. During construction the call
  is made whenever the weights were loaded, the device is a CUDA device and
  Torch-TensorRT is imported.
\<close>

theorem mkdir_before_exists_check:
  "(\<exists>rest. build_log (snd (load_or_compile_trt R self model st)) =
         build_log st @ EvMkdir (parent (engine_path self)) # rest)
   \<and> (can_mkdir R (parent (engine_path self)) st \<longrightarrow>
        (\<exists>rest. build_log (snd (load_or_compile_trt R self model st)) =
           build_log st @ EvMkdir (parent (engine_path self)) # EvExists (engine_path self) # rest)
        \<and> parent (engine_path self) \<in> dirs (disk (snd (load_or_compile_trt R self model st))))
   \<and> (can_mkdir R (parent (engine_path self)) st
        \<and> files (disk st) (engine_path self) = Some b \<longrightarrow>
        dirs (disk (snd (load_or_compile_trt R self model st))) =
            dirs (disk st) \<union> set (ancestors_and_self (parent (engine_path self)))
        \<and> (\<exists>rest. build_log (snd (load_or_compile_trt R self model st)) =
              build_log st @ EvMkdir (parent (engine_path self)) # EvExists (engine_path self)
                # EvReadBytes (engine_path self) # rest
            \<and> set rest \<subseteq> {EvJitLoad}))
   \<and> (\<not> can_mkdir R (parent (engine_path self)) st \<longrightarrow>
        isl (fst (load_or_compile_trt R self model st))
        \<and> build_log (snd (load_or_compile_trt R self model st)) =
            build_log st @ [EvMkdir (parent (engine_path self))]
        \<and> disk (snd (load_or_compile_trt R self model st)) = disk st)
   \<and> (load_weights R S st = (Inr (m0, lbls), st1) \<and> is_cuda (device self)
        \<and> torch_tensorrt_imported R \<longrightarrow>
        EvMkdir (parent (engine_path self)) \<in> set (build_log (snd (load_models R S self st)))
        \<and> (can_mkdir R (parent (engine_path self)) st \<longrightarrow>
             parent (engine_path self) \<in> dirs (disk (snd (load_models R S self st)))))"
proof (intro conjI impI)
  show "\<exists>rest. build_log (snd (load_or_compile_trt R self model st)) =
         build_log st @ EvMkdir (parent (engine_path self)) # rest"
    by (rule log_starts_with_mkdir)
next
  assume a: "can_mkdir R (parent (engine_path self)) st"
  show "\<exists>rest. build_log (snd (load_or_compile_trt R self model st)) =
           build_log st @ EvMkdir (parent (engine_path self)) # EvExists (engine_path self) # rest"
    by (rule log_prefix [OF a])
  show "parent (engine_path self) \<in> dirs (disk (snd (load_or_compile_trt R self model st)))"
    by (rule dirs_after [OF a])
next
  assume "can_mkdir R (parent (engine_path self)) st
        \<and> files (disk st) (engine_path self) = Some b"
  then have a: "can_mkdir R (parent (engine_path self)) st"
    "files (disk st) (engine_path self) = Some b" by simp_all
  from load_prefix [OF a, of model]
  show "dirs (disk (snd (load_or_compile_trt R self model st))) =
            dirs (disk st) \<union> set (ancestors_and_self (parent (engine_path self)))"
    and "\<exists>rest. build_log (snd (load_or_compile_trt R self model st)) =
              build_log st @ EvMkdir (parent (engine_path self)) # EvExists (engine_path self)
                # EvReadBytes (engine_path self) # rest
            \<and> set rest \<subseteq> {EvJitLoad}"
    by simp_all
next
  assume a: "\<not> can_mkdir R (parent (engine_path self)) st"
  from mkdir_refused_call [OF a, of model]
  show "isl (fst (load_or_compile_trt R self model st))"
    and "build_log (snd (load_or_compile_trt R self model st)) =
            build_log st @ [EvMkdir (parent (engine_path self))]"
    and "disk (snd (load_or_compile_trt R self model st)) = disk st"
    by (simp_all add: logged_def)
next
  assume "load_weights R S st = (Inr (m0, lbls), st1) \<and> is_cuda (device self)
        \<and> torch_tensorrt_imported R"
  then have a: "load_weights R S st = (Inr (m0, lbls), st1)" "is_cuda (device self)"
    "torch_tensorrt_imported R" by simp_all
  from load_models_calls [OF a] obtain self1 m2 where
    ep: "engine_path self1 = engine_path self" and d: "disk st1 = disk st" and
    sn: "snd (load_models R S self st) = snd (load_or_compile_trt R self1 m2 st1)"
    by blast
  from log_starts_with_mkdir [of R self1 m2 st1] obtain rest where
    "build_log (snd (load_or_compile_trt R self1 m2 st1)) =
       build_log st1 @ EvMkdir (parent (engine_path self1)) # rest"
    by blast
  then show "EvMkdir (parent (engine_path self)) \<in> set (build_log (snd (load_models R S self st)))"
    by (simp add: sn ep)
  assume c: "can_mkdir R (parent (engine_path self)) st"
  then have "can_mkdir R (parent (engine_path self1)) st1"
    by (simp add: ep can_mkdir_disk [OF d])
  from dirs_after [OF this, of m2]
  show "parent (engine_path self) \<in> dirs (disk (snd (load_models R S self st)))"
    by (simp add: sn ep)
qed

theorem mkdir_before_exists_check_witness:
  "(can_mkdir gpu_host (parent (engine_path gpu_engine)) cached_disk
      \<and> files (disk cached_disk) (engine_path gpu_engine) = Some ''serialized'')
   \<and> build_log (snd (load_or_compile_trt gpu_host gpu_engine gpu_model cached_disk)) =
       [EvMkdir [''artifacts''], EvExists [''artifacts'', ''resnet18_fp16_engine.tsrt''],
        EvReadBytes [''artifacts'', ''resnet18_fp16_engine.tsrt''], EvJitLoad]
   \<and> [''artifacts''] \<in> dirs (disk (snd (load_or_compile_trt gpu_host gpu_engine gpu_model cached_disk)))
   \<and> \<not> can_mkdir gpu_host (parent (engine_path gpu_engine)) blocked_disk
   \<and> isl (fst (load_or_compile_trt gpu_host gpu_engine gpu_model blocked_disk))
   \<and> (load_weights gpu_host default_settings cached_disk =
         (Inr (resnet18 Pretrained, categories gpu_host), logged (EvResnet18 Pretrained) cached_disk)
        \<and> is_cuda (device gpu_engine) \<and> torch_tensorrt_imported gpu_host)
   \<and> EvMkdir [''artifacts''] \<in> set (build_log (snd (load_models gpu_host default_settings gpu_engine cached_disk)))
   \<and> [''artifacts''] \<in> dirs (disk (snd (load_models gpu_host default_settings gpu_engine cached_disk)))"
proof -
  have p: "parent [''artifacts'', ''resnet18_fp16_engine.tsrt''] = [''artifacts'']"
          "engine_path gpu_engine = [''artifacts'', ''resnet18_fp16_engine.tsrt'']"
          "build_log cached_disk = []"
    by (simp_all add: parent_def gpu_engine_def cached_disk_def)
  have an: "ancestors_and_self [''artifacts''] = [[], [''artifacts'']]"
    by (simp add: ancestors_and_self_def upt_rec [of 0] upt_rec [of 1] upt_rec [of 2])
  have h1: "can_mkdir gpu_host (parent (engine_path gpu_engine)) cached_disk
      \<and> files (disk cached_disk) (engine_path gpu_engine) = Some ''serialized''"
    by (simp add: parent_def an can_mkdir_def cached_disk_def gpu_engine_def gpu_host_def)
  have h2: "load_weights gpu_host default_settings cached_disk =
         (Inr (resnet18 Pretrained, categories gpu_host), logged (EvResnet18 Pretrained) cached_disk)
        \<and> is_cuda (device gpu_engine) \<and> torch_tensorrt_imported gpu_host"
    by (simp add: load_weights_def gpu_host_def gpu_engine_def)
  have h3: "\<not> can_mkdir gpu_host (parent (engine_path gpu_engine)) blocked_disk"
    by (simp add: parent_def an can_mkdir_def blocked_disk_def gpu_engine_def)
  have j: "jit_load_fault gpu_host ''serialized'' = None" "os_fault gpu_host c = None" for c
    by (simp_all add: gpu_host_def)
  note t = mkdir_before_exists_check
         [where R = gpu_host and self = gpu_engine and model = gpu_model and st = cached_disk
            and b = "''serialized''" and S = default_settings and ?m0.0 = "resnet18 Pretrained"
            and lbls = "categories gpu_host" and ?st1.0 = "logged (EvResnet18 Pretrained) cached_disk"]
  from t [THEN conjunct2, THEN conjunct1] h1
  have a1: "[''artifacts''] \<in> dirs (disk (snd (load_or_compile_trt gpu_host gpu_engine gpu_model cached_disk)))"
    by (simp add: p)
  from t [THEN conjunct2, THEN conjunct2, THEN conjunct1] h1
  obtain rest where
    r: "build_log (snd (load_or_compile_trt gpu_host gpu_engine gpu_model cached_disk)) =
          EvMkdir [''artifacts''] # EvExists [''artifacts'', ''resnet18_fp16_engine.tsrt'']
            # EvReadBytes [''artifacts'', ''resnet18_fp16_engine.tsrt''] # rest"
      "set rest \<subseteq> {EvJitLoad}"
    by (auto simp: p)
  have l: "build_log (snd (load_or_compile_trt gpu_host gpu_engine gpu_model cached_disk)) =
       [EvMkdir [''artifacts''], EvExists [''artifacts'', ''resnet18_fp16_engine.tsrt''],
        EvReadBytes [''artifacts'', ''resnet18_fp16_engine.tsrt''], EvJitLoad]"
    using load_branch [of gpu_host gpu_engine cached_disk "''serialized''" gpu_model] h1 j
    by (simp add: p)
  from t [THEN conjunct2, THEN conjunct2, THEN conjunct2, THEN conjunct2] h1 h2
  have a3: "EvMkdir [''artifacts''] \<in> set (build_log (snd (load_models gpu_host default_settings gpu_engine cached_disk)))
          \<and> [''artifacts''] \<in> dirs (disk (snd (load_models gpu_host default_settings gpu_engine cached_disk)))"
    by (simp add: p)
  from mkdir_before_exists_check
         [where R = gpu_host and self = gpu_engine and model = gpu_model and st = blocked_disk,
          THEN conjunct2, THEN conjunct2, THEN conjunct2, THEN conjunct1] h3
  have a4: "isl (fst (load_or_compile_trt gpu_host gpu_engine gpu_model blocked_disk))"
    by blast
  from h1 h2 h3 a1 l a3 a4 show ?thesis by blast
qed

text \<open>
  The claim C10 as it was stated fails when a regular file has the name of the parent
  directory: the call runs, the directory is not created, and the call raises before
  any existence check.
\<close>

theorem mkdir_before_exists_check_counterexample:
  "fst (load_or_compile_trt gpu_host gpu_engine gpu_model blocked_disk) = Inl FileExistsError
   \<and> build_log (snd (load_or_compile_trt gpu_host gpu_engine gpu_model blocked_disk)) =
       [EvMkdir [''artifacts'']]
   \<and> [''artifacts''] \<notin> dirs (disk (snd (load_or_compile_trt gpu_host gpu_engine gpu_model blocked_disk)))"
  by (simp add: load_or_compile_trt_def mkdir_parents_def logged_def parent_def blocked_disk_def
        gpu_engine_def)

section \<open>The engine: preprocessor, weights and rejected payloads\<close>

lemma open_refused:
  assumes "image_open ops image_bytes = Inl e"
  shows "result (predict ops self image_bytes T) =
           Inl (if e = UnidentifiedImageError
                then ValueError ''Provided file is not a valid image.'' else e)"
    and "events (predict ops self image_bytes T) = [EvImageOpen]"
    and "engine_after (predict ops self image_bytes T) = self"
  using assms by (simp_all add: predict_def)

text \<open>
  C3, as amended. When \<open>Image.open\<close> does not recognise the payload as an image (it
  raises \<open>UnidentifiedImageError\<close>, as it does on the empty payload), \<open>predict\<close> raises
  the invalid-image error \<open>ValueError("Provided file is not a valid image.")\<close>. When
  \<open>Image.open\<close> refuses the payload with another exception, that exception leaves
  \<open>predict\<close> as it is, and it is not the invalid-image error. In both cases the only
  call made is the single attempt to open the image: no preprocessing, no
  synchronisation, no transfer and no forward pass take place, nothing is retried, and
  the engine is left as it was.
\<close>

theorem invalid_image_rejected:
  "(image_open ops image_bytes = Inl UnidentifiedImageError \<longrightarrow>
      result (predict ops self image_bytes T) = Inl (ValueError ''Provided file is not a valid image.''))
   \<and> (image_open ops image_bytes = Inl e \<and> e \<noteq> UnidentifiedImageError \<longrightarrow>
      result (predict ops self image_bytes T) = Inl e)
   \<and> (isl (image_open ops image_bytes) \<longrightarrow>
      isl (result (predict ops self image_bytes T))
      \<and> events (predict ops self image_bytes T) = [EvImageOpen]
      \<and> engine_after (predict ops self image_bytes T) = self)"
proof (intro conjI impI)
  assume a: "image_open ops image_bytes = Inl UnidentifiedImageError"
  from open_refused(1) [OF a]
  show "result (predict ops self image_bytes T) = Inl (ValueError ''Provided file is not a valid image.'')"
    by simp
next
  assume "image_open ops image_bytes = Inl e \<and> e \<noteq> UnidentifiedImageError"
  then have a: "image_open ops image_bytes = Inl e" and ne: "e \<noteq> UnidentifiedImageError"
    by simp_all
  from open_refused(1) [OF a] ne show "result (predict ops self image_bytes T) = Inl e"
    by simp
next
  assume "isl (image_open ops image_bytes)"
  then obtain e' where a: "image_open ops image_bytes = Inl e'"
    by (cases "image_open ops image_bytes") simp_all
  from open_refused(1) [OF a] show "isl (result (predict ops self image_bytes T))" by simp
  from open_refused(2) [OF a] show "events (predict ops self image_bytes T) = [EvImageOpen]" .
  from open_refused(3) [OF a] show "engine_after (predict ops self image_bytes T) = self" .
qed

theorem invalid_image_rejected_witness:
  "image_open toy_ops [] = Inl UnidentifiedImageError
   \<and> result (predict toy_ops cpu_engine [] toy_timings) = Inl (ValueError ''Provided file is not a valid image.'')
   \<and> events (predict toy_ops cpu_engine [] toy_timings) = [EvImageOpen]
   \<and> engine_after (predict toy_ops cpu_engine [] toy_timings) = cpu_engine
   \<and> (image_open bomb_ops ''png'' = Inl DecompressionBombError
        \<and> DecompressionBombError \<noteq> UnidentifiedImageError)
   \<and> events (predict bomb_ops cpu_engine ''png'' toy_timings) = [EvImageOpen]"
proof -
  have h: "image_open toy_ops [] = Inl UnidentifiedImageError"
    by (simp add: toy_ops_def)
  have h2: "image_open bomb_ops ''png'' = Inl DecompressionBombError
        \<and> DecompressionBombError \<noteq> UnidentifiedImageError"
    by (simp add: bomb_ops_def)
  note t = invalid_image_rejected [where ops = toy_ops and image_bytes = "[]" and self = cpu_engine
             and T = toy_timings]
  from t [THEN conjunct1] h
  have a1: "result (predict toy_ops cpu_engine [] toy_timings) =
              Inl (ValueError ''Provided file is not a valid image.'')"
    by blast
  from t [THEN conjunct2, THEN conjunct2] h
  have a2: "events (predict toy_ops cpu_engine [] toy_timings) = [EvImageOpen]
          \<and> engine_after (predict toy_ops cpu_engine [] toy_timings) = cpu_engine"
    by simp
  from invalid_image_rejected
         [where ops = bomb_ops and image_bytes = "''png''" and self = cpu_engine
            and T = toy_timings, THEN conjunct2, THEN conjunct2] h2
  have a3: "events (predict bomb_ops cpu_engine ''png'' toy_timings) = [EvImageOpen]"
    by simp
  from h h2 a1 a2 a3 show ?thesis by blast
qed

text \<open>
  The claim C3 as it was stated fails on a payload that Pillow refuses as a
  decompression bomb: \<open>Image.open\<close> raises, the payload is not decoded, and what
  \<open>predict\<close> raises is Pillow's exception, not the invalid-image error.
\<close>

theorem invalid_image_rejected_counterexample:
  "image_open bomb_ops ''bomb'' = Inl DecompressionBombError
   \<and> result (predict bomb_ops cpu_engine ''bomb'' toy_timings) = Inl DecompressionBombError
   \<and> result (predict bomb_ops cpu_engine ''bomb'' toy_timings) \<noteq>
       Inl (ValueError ''Provided file is not a valid image.'')"
  by (simp add: predict_def bomb_ops_def)

text \<open>
  C8. \<open>_select_preprocessor\<close> never fails and returns the CuPy pipeline exactly when
  the device is a CUDA device and CuPy was imported, and the CPU pipeline otherwise. An
  engine that \<open>__init__\<close> returns has the device resolved from the requested one and
  the availability of CUDA, and its preprocessor is the CuPy one if and only if that
  device is a CUDA device and CuPy was imported. \<open>predict\<close> leaves the preprocessor
  of the engine unchanged.
\<close>

theorem preprocessor_selection:
  "select_preprocessor R dev =
     Inr (if is_cuda dev \<and> cupy_imported R then CuPyPreprocessor 224 else TorchPreprocessor 224)
   \<and> (ResNet18Engine_init R S ep dev_arg f n a st = (Inr e, st') \<longrightarrow>
        device e = (if cuda_is_available R then dev_arg else Cpu)
        \<and> ((\<exists>sz. preprocessor_of e = CuPyPreprocessor sz) \<longleftrightarrow> is_cuda (device e) \<and> cupy_imported R)
        \<and> ((\<exists>sz. preprocessor_of e = TorchPreprocessor sz) \<longleftrightarrow> \<not> (is_cuda (device e) \<and> cupy_imported R)))
   \<and> preprocessor_of (engine_after (predict ops e image_bytes T)) = preprocessor_of e"
proof (intro conjI impI)
  show "select_preprocessor R dev =
     Inr (if is_cuda dev \<and> cupy_imported R then CuPyPreprocessor 224 else TorchPreprocessor 224)"
    by (rule select_preprocessor_total)
  show "preprocessor_of (engine_after (predict ops e image_bytes T)) = preprocessor_of e"
    by (simp add: predict_frame)
next
  assume a: "ResNet18Engine_init R S ep dev_arg f n a st = (Inr e, st')"
  note fr = load_models_frame [OF a [unfolded init_unfold]]
  from fr show "device e = (if cuda_is_available R then dev_arg else Cpu)" by simp
  from fr show "(\<exists>sz. preprocessor_of e = CuPyPreprocessor sz) \<longleftrightarrow> is_cuda (device e) \<and> cupy_imported R"
    by auto
  from fr show "(\<exists>sz. preprocessor_of e = TorchPreprocessor sz) \<longleftrightarrow> \<not> (is_cuda (device e) \<and> cupy_imported R)"
    by auto
qed

theorem preprocessor_selection_witness:
  "ResNet18Engine_init cpu_host default_settings None (Cuda 0) True 8 True empty_disk =
     (Inr cpu_engine, empty_disk\<lparr>build_log := [EvResnet18 Pretrained]\<rparr>)
   \<and> device cpu_engine = Cpu
   \<and> \<not> (is_cuda (device cpu_engine) \<and> cupy_imported cpu_host)
   \<and> (\<exists>sz. preprocessor_of cpu_engine = TorchPreprocessor sz)
   \<and> preprocessor_of (engine_after (predict toy_ops cpu_engine ''png'' toy_timings)) = preprocessor_of cpu_engine"
proof -
  note h = cpu_host_builds
  have c: "\<not> cuda_is_available cpu_host" by (simp add: cpu_host_def)
  from preprocessor_selection
     [where R = cpu_host and S = default_settings and ep = None and dev_arg = "Cuda 0" and f = True
        and n = 8 and a = True and st = empty_disk and e = cpu_engine
        and st' = "empty_disk\<lparr>build_log := [EvResnet18 Pretrained]\<rparr>"
        and ops = toy_ops and image_bytes = "''png''" and T = toy_timings] h c
  show ?thesis by simp
qed

text \<open>
  C9. An engine that \<open>__init__\<close> returns never carries randomly initialised
  weights: they are the pretrained ones or, when those cannot be fetched, the ones of
  the configured local file. When the pretrained weights cannot be fetched and no local
  file is configured, construction raises the configuration error. When a CUDA device
  is requested, CUDA is not available and the CPU fallback is not allowed, construction
  raises, no engine is returned and the disk is untouched.
\<close>

theorem weights_and_device_required:
  "(ResNet18Engine_init R S ep dev_arg f n a st = (Inr e, st') \<longrightarrow>
      (\<exists>m. torch_model e = Some m \<and> m_weights m \<noteq> RandomInit
          \<and> (pretrained_available R \<longrightarrow> m_weights m = Pretrained)
          \<and> (\<not> pretrained_available R \<longrightarrow>
               (\<exists>w. model_torch_weights S = Some w \<and> w \<noteq> [] \<and> m_weights m = StateDict w))))
   \<and> (\<not> pretrained_available R
        \<and> (model_torch_weights S = None \<or> model_torch_weights S = Some []) \<longrightarrow>
      fst (ResNet18Engine_init R S ep dev_arg f n a st) =
        Inl (RuntimeError ''Unable to load pretrained ResNet18 weights. Set GAVID_MODEL_TORCH_WEIGHTS to a local .pth file.''))
   \<and> (is_cuda dev_arg \<and> \<not> cuda_is_available R \<and> \<not> a \<longrightarrow>
      isl (fst (ResNet18Engine_init R S ep dev_arg f n a st))
      \<and> disk (snd (ResNet18Engine_init R S ep dev_arg f n a st)) = disk st)"
proof (intro conjI impI)
  assume a: "ResNet18Engine_init R S ep dev_arg f n a st = (Inr e, st')"
  from load_models_weights [OF a [unfolded init_unfold]] obtain m lbls st1 m' where
    lw: "load_weights R S st = (Inr (m, lbls), st1)" and
    tm: "torch_model e = Some m'" "m_weights m' = m_weights m"
    by blast
  from load_weights_sound [OF lw] tm
  show "\<exists>m. torch_model e = Some m \<and> m_weights m \<noteq> RandomInit
          \<and> (pretrained_available R \<longrightarrow> m_weights m = Pretrained)
          \<and> (\<not> pretrained_available R \<longrightarrow>
               (\<exists>w. model_torch_weights S = Some w \<and> w \<noteq> [] \<and> m_weights m = StateDict w))"
    by auto
next
  assume a: "\<not> pretrained_available R
        \<and> (model_torch_weights S = None \<or> model_torch_weights S = Some [])"
  then have lw: "fst (load_weights R S st) =
     Inl (RuntimeError ''Unable to load pretrained ResNet18 weights. Set GAVID_MODEL_TORCH_WEIGHTS to a local .pth file.'')"
    using load_weights_unconfigured by blast
  show "fst (ResNet18Engine_init R S ep dev_arg f n a st) =
        Inl (RuntimeError ''Unable to load pretrained ResNet18 weights. Set GAVID_MODEL_TORCH_WEIGHTS to a local .pth file.'')"
    using lw by (cases "load_weights R S st") (simp add: init_unfold load_models_def)
next
  assume a: "is_cuda dev_arg \<and> \<not> cuda_is_available R \<and> \<not> a"
  then show "isl (fst (ResNet18Engine_init R S ep dev_arg f n a st))"
    by (simp add: init_unfold load_models_cpu_refused)
  from a show "disk (snd (ResNet18Engine_init R S ep dev_arg f n a st)) = disk st"
    by (simp add: init_unfold load_models_cpu_refused)
qed

theorem weights_and_device_required_witness:
  "(\<exists>e st'.
       ResNet18Engine_init offline_host (default_settings\<lparr>model_torch_weights := Some ''resnet18.pth''\<rparr>)
         None (Cuda 0) True 8 True empty_disk = (Inr e, st')
       \<and> (\<exists>m. torch_model e = Some m \<and> m_weights m = StateDict ''resnet18.pth''))
   \<and> (\<not> pretrained_available offline_host
        \<and> (model_torch_weights default_settings = None \<or> model_torch_weights default_settings = Some []))
   \<and> fst (ResNet18Engine_init offline_host default_settings None (Cuda 0) True 8 True empty_disk) =
        Inl (RuntimeError ''Unable to load pretrained ResNet18 weights. Set GAVID_MODEL_TORCH_WEIGHTS to a local .pth file.'')
   \<and> (is_cuda (Cuda 0) \<and> \<not> cuda_is_available cpu_host \<and> \<not> False)
   \<and> isl (fst (ResNet18Engine_init cpu_host default_settings None (Cuda 0) True 8 False empty_disk))"
proof -
  define S1 where "S1 = default_settings\<lparr>model_torch_weights := Some ''resnet18.pth''\<rparr>"
  have "\<exists>e st'. ResNet18Engine_init offline_host S1 None (Cuda 0) True 8 True empty_disk = (Inr e, st')"
    by (simp add: init_unfold load_models_def load_weights_def offline_host_def cpu_host_def
          gpu_host_def S1_def default_settings_def Let_def)
  then obtain e st' where
    h1: "ResNet18Engine_init offline_host S1 None (Cuda 0) True 8 True empty_disk = (Inr e, st')"
    by blast
  have n1: "\<not> pretrained_available offline_host" "model_torch_weights S1 = Some ''resnet18.pth''"
    by (simp_all add: offline_host_def S1_def)
  from weights_and_device_required
         [where R = offline_host and S = S1 and ep = None and dev_arg = "Cuda 0" and f = True
            and n = 8 and a = True and st = empty_disk and e = e and st' = st'] h1 n1
  have a1: "\<exists>m. torch_model e = Some m \<and> m_weights m = StateDict ''resnet18.pth''"
    by auto
  have h2: "\<not> pretrained_available offline_host
        \<and> (model_torch_weights default_settings = None \<or> model_torch_weights default_settings = Some [])"
    by (simp add: offline_host_def default_settings_def)
  from weights_and_device_required
         [where R = offline_host and S = default_settings and ep = None and dev_arg = "Cuda 0"
            and f = True and n = 8 and a = True and st = empty_disk] h2
  have a2: "fst (ResNet18Engine_init offline_host default_settings None (Cuda 0) True 8 True empty_disk) =
        Inl (RuntimeError ''Unable to load pretrained ResNet18 weights. Set GAVID_MODEL_TORCH_WEIGHTS to a local .pth file.'')"
    by blast
  have h3: "is_cuda (Cuda 0) \<and> \<not> cuda_is_available cpu_host \<and> \<not> False"
    by (simp add: cpu_host_def)
  from weights_and_device_required
         [where R = cpu_host and S = default_settings and ep = None and dev_arg = "Cuda 0"
            and f = True and n = 8 and a = False and st = empty_disk] h3
  have a3: "isl (fst (ResNet18Engine_init cpu_host default_settings None (Cuda 0) True 8 False empty_disk))"
    by blast
  from h1 a1 h2 a2 h3 a3 show ?thesis unfolding S1_def by blast
qed

section \<open>Double-precision arithmetic: rounding\<close>

lemma pow2_powr: "pow2 k = 2 powr (of_int k)"
  by (simp add: pow2_def powr_int)

lemma pow2_pos [simp]: "0 < pow2 k"
  by (simp add: pow2_powr)

lemma pow2_add: "pow2 (a + b) = pow2 a * pow2 b"
  by (simp add: pow2_powr powr_add)

lemma pow2_mono: "a \<le> b \<Longrightarrow> pow2 a \<le> pow2 b"
  by (simp add: pow2_powr)

lemma pow2_strict_mono: "a < b \<Longrightarrow> pow2 a < pow2 b"
  by (simp add: pow2_powr)

lemma pow2_nat: "0 \<le> k \<Longrightarrow> pow2 k = of_int (2 ^ nat k)"
  by (simp add: pow2_def)

lemma binade_eq:
  assumes "pow2 e \<le> \<bar>x\<bar>" "\<bar>x\<bar> < pow2 (e + 1)"
  shows "binade x = e"
proof -
  have pos: "0 < \<bar>x\<bar>" using assms(1) pow2_pos [of e] by linarith
  have 1: "of_int e \<le> log 2 \<bar>x\<bar>"
    using assms(1) pos by (simp add: pow2_powr le_log_iff)
  have 2: "log 2 \<bar>x\<bar> < of_int e + 1"
    using assms(2) pos by (simp add: pow2_powr log_less_iff)
  show ?thesis
    unfolding binade_def using 1 2 by linarith
qed

lemma binade_bounds:
  assumes "x \<noteq> 0"
  shows "pow2 (binade x) \<le> \<bar>x\<bar> \<and> \<bar>x\<bar> < pow2 (binade x + 1)"
proof -
  have pos: "0 < \<bar>x\<bar>" using assms by simp
  have 1: "of_int (binade x) \<le> log 2 \<bar>x\<bar>" by (simp add: binade_def)
  have 2: "log 2 \<bar>x\<bar> < of_int (binade x) + 1" by (simp add: binade_def)
  from 1 have "pow2 (binade x) \<le> \<bar>x\<bar>"
    using pos by (simp add: pow2_powr le_log_iff)
  moreover from 2 have "\<bar>x\<bar> < pow2 (binade x + 1)"
    using pos by (simp add: pow2_powr log_less_iff)
  ultimately show ?thesis by simp
qed

lemma round_even_err: "\<bar>of_int (round_even y) - y\<bar> \<le> 1 / 2"
proof -
  have "of_int \<lfloor>y\<rfloor> \<le> y" "y < of_int \<lfloor>y\<rfloor> + 1" by linarith+
  then show ?thesis
    by (auto simp: round_even_def Let_def)
qed

lemma round_even_int [simp]: "round_even (of_int m) = m"
  by (simp add: round_even_def)

lemma round_even_nonneg: "0 \<le> y \<Longrightarrow> 0 \<le> round_even y"
  by (auto simp: round_even_def Let_def)

lemma pow2_diff: "pow2 (a - b) = pow2 a / pow2 b"
  by (simp add: pow2_powr powr_diff)

lemma pow2_Suc: "pow2 (e + 1) = 2 * pow2 e"
  by (simp add: pow2_powr powr_add)

lemma pow2_nonzero [simp]: "pow2 k \<noteq> 0"
  using pow2_pos [of k] by linarith

lemma pow2_abs [simp]: "\<bar>pow2 k\<bar> = pow2 k"
  using pow2_pos [of k] by linarith

lemma round_double_Fin_bound:
  assumes "round_double x = Fin r"
  shows "\<bar>r\<bar> < pow2 1024"
proof (cases "x = 0")
  case True
  with assms show ?thesis by (simp add: round_double_def)
next
  case False
  with assms show ?thesis
    by (auto simp: round_double_def Let_def split: if_splits)
qed

lemma round_double_nonneg:
  assumes "0 \<le> x"
  shows "nonneg_pyfloat (round_double x)"
proof (cases "x = 0")
  case True
  then show ?thesis by (simp add: round_double_def)
next
  case False
  define u where "u = pow2 (grid_exp x)"
  have u: "0 < u" by (simp add: u_def)
  have "0 \<le> x / u" using assms u by simp
  then have "0 \<le> round_even (x / u)" by (rule round_even_nonneg)
  then have r: "0 \<le> of_int (round_even (x / u)) * u" using u by simp
  have "\<not> of_int (round_even (x / u)) * u \<le> - pow2 1024"
    using r pow2_pos [of 1024] by linarith
  with False r show ?thesis
    by (simp add: round_double_def Let_def u_def [symmetric])
qed

text \<open>A value in the normal range is rounded on the grid of its binade.\<close>

lemma round_double_eval:
  assumes lo: "pow2 e \<le> \<bar>x\<bar>" and hi: "\<bar>x\<bar> < pow2 (e + 1)"
    and e: "- 1022 \<le> e" "e \<le> 1022"
  shows "round_double x = Fin (of_int (round_even (x / pow2 (e - 52))) * pow2 (e - 52))"
    and "\<bar>of_int (round_even (x / pow2 (e - 52))) * pow2 (e - 52) - x\<bar> \<le> pow2 (e - 53)"
proof -
  define u where "u = pow2 (e - 52)"
  define r where "r = of_int (round_even (x / u)) * u"
  have u: "0 < u" by (simp add: u_def)
  have "0 < \<bar>x\<bar>" using lo pow2_pos [of e] by linarith
  then have nz: "x \<noteq> 0" by auto
  have b: "binade x = e" by (rule binade_eq [OF lo hi])
  have g: "grid_exp x = e - 52" using e by (simp add: grid_exp_def b)
  have "\<bar>of_int (round_even (x / u)) - x / u\<bar> \<le> 1 / 2" by (rule round_even_err)
  then have "\<bar>of_int (round_even (x / u)) - x / u\<bar> * u \<le> 1 / 2 * u"
    using u by (simp add: mult_right_mono)
  moreover have "\<bar>of_int (round_even (x / u)) - x / u\<bar> * u = \<bar>r - x\<bar>"
  proof -
    have "(of_int (round_even (x / u)) - x / u) * u = r - x"
      using u by (simp add: r_def left_diff_distrib)
    moreover have "\<bar>of_int (round_even (x / u)) - x / u\<bar> * u =
        \<bar>(of_int (round_even (x / u)) - x / u) * u\<bar>"
      using u by (simp add: abs_mult)
    ultimately show ?thesis by simp
  qed
  moreover have "1 / 2 * u = pow2 (e - 53)"
    using pow2_Suc [of "e - 53"] by (simp add: u_def)
  ultimately have err: "\<bar>r - x\<bar> \<le> pow2 (e - 53)" by simp
  then show "\<bar>of_int (round_even (x / pow2 (e - 52))) * pow2 (e - 52) - x\<bar> \<le> pow2 (e - 53)"
    by (simp add: r_def u_def)
  have "pow2 (e - 53) \<le> pow2 (e + 1)" by (rule pow2_mono) simp
  with err hi have "\<bar>r\<bar> < 2 * pow2 (e + 1)" by linarith
  also have "\<dots> = pow2 (e + 2)" using pow2_Suc [of "e + 1"] by (simp add: add.commute)
  also have "\<dots> \<le> pow2 1024" by (rule pow2_mono) (use e in simp)
  finally have rb: "\<bar>r\<bar> < pow2 1024" .
  then have "\<not> pow2 1024 \<le> r" "\<not> r \<le> - pow2 1024" by linarith+
  with nz show "round_double x = Fin (of_int (round_even (x / pow2 (e - 52))) * pow2 (e - 52))"
    by (simp add: round_double_def Let_def g r_def u_def)
qed

text \<open>A double is the result of rounding itself.\<close>

lemma round_double_exact:
  assumes x: "x = of_int m * pow2 k" and m: "\<bar>m\<bar> < 2 ^ 53" and k: "- 1074 \<le> k"
    and fin: "\<bar>x\<bar> < pow2 1024"
  shows "round_double x = Fin x"
proof (cases "x = 0")
  case True
  then show ?thesis by (simp add: round_double_def)
next
  case False
  define g where "g = grid_exp x"
  have "\<bar>x\<bar> = of_int \<bar>m\<bar> * pow2 k" by (simp add: x abs_mult)
  also have "\<dots> < 2 ^ 53 * pow2 k"
  proof -
    have "(of_int \<bar>m\<bar> :: real) < of_int (2 ^ 53)" using m by (simp only: of_int_less_iff)
    then show ?thesis by simp
  qed
  also have "\<dots> = pow2 (53 + k)"
  proof -
    have "pow2 53 = 2 ^ 53" by (simp add: pow2_def)
    then show ?thesis by (simp add: pow2_add)
  qed
  finally have up: "\<bar>x\<bar> < pow2 (53 + k)" .
  from binade_bounds [OF False] have "pow2 (binade x) \<le> \<bar>x\<bar>" by simp
  with up have "pow2 (binade x) < pow2 (53 + k)" by linarith
  then have "binade x < 53 + k"
    by (simp add: pow2_powr del: powr_numeral)
  then have gk: "g \<le> k" using k by (simp add: g_def grid_exp_def)
  have "pow2 k = pow2 (k - g) * pow2 g" using pow2_add [of "k - g" g] by simp
  then have "x / pow2 g = of_int m * pow2 (k - g)" by (simp add: x)
  also have "\<dots> = of_int (m * 2 ^ nat (k - g))" using gk by (simp add: pow2_nat)
  finally have q: "x / pow2 g = of_int (m * 2 ^ nat (k - g))" .
  have r: "of_int (round_even (x / pow2 g)) * pow2 g = x"
    unfolding q round_even_int unfolding q [symmetric] by simp
  from fin have "\<not> pow2 1024 \<le> x" "\<not> x \<le> - pow2 1024" by linarith+
  with False r show ?thesis
    by (simp add: round_double_def Let_def g_def [symmetric])
qed

lemma pow2_less_iff: "pow2 a < pow2 b \<longleftrightarrow> a < b"
  by (simp add: pow2_powr)

lemma fmul_nonneg:
  assumes "nonneg_pyfloat x" "0 < c"
  shows "nonneg_pyfloat (fmul x (Fin c))"
proof (cases x)
  case (Fin a)
  with assms have "0 \<le> a * c" by simp
  then show ?thesis using Fin by (simp add: round_double_nonneg)
next
  case PosInf
  with assms show ?thesis by (simp add: signed_inf_def)
next
  case NegInf
  with assms show ?thesis by simp
next
  case NaN
  with assms show ?thesis by simp
qed

lemma elapsed_nonneg:
  assumes "start \<le> stop"
  shows "nonneg_pyfloat (elapsed_ms start stop)"
proof -
  have "nonneg_pyfloat (fsub (Fin stop) (Fin start))"
    using assms by (simp add: fsub_def round_double_nonneg)
  then show ?thesis
    unfolding elapsed_ms_def by (rule fmul_nonneg) simp
qed

lemma fadd_nonneg:
  assumes "nonneg_pyfloat x" "nonneg_pyfloat y"
  shows "nonneg_pyfloat (fadd x y)"
  using assms
  by (cases x; cases y) (simp_all add: round_double_nonneg)

lemma throughput_of_nonneg:
  assumes "nonneg_pyfloat lat"
  shows "\<exists>thr. throughput_of lat = Inr thr \<and> nonneg_pyfloat thr"
proof (cases lat)
  case (Fin a)
  show ?thesis
  proof (cases "0 < a")
    case True
    then have "0 \<le> 1000 / a" by simp
    then have "nonneg_pyfloat (round_double (1000 / a))" by (rule round_double_nonneg)
    with True Fin show ?thesis by (simp add: throughput_of_def)
  next
    case False
    with Fin show ?thesis by (simp add: throughput_of_def)
  qed
next
  case PosInf
  then show ?thesis by (simp add: throughput_of_def)
next
  case NegInf
  with assms show ?thesis by simp
next
  case NaN
  with assms show ?thesis by simp
qed

lemma fadd_Fin_bound:
  assumes "fadd x y = Fin L"
  shows "\<bar>L\<bar> < pow2 1024"
  using assms
  by (cases x; cases y) (auto dest: round_double_Fin_bound)

text \<open>The quotient \<open>1000 / L\<close> and its product with \<open>L\<close>, each rounded once.\<close>

lemma product_near_1000:
  assumes lo: "pow2 (- 1000) \<le> L" and hi: "L < pow2 1024"
  shows "\<exists>q p. fdiv (Fin 1000) (Fin L) = Inr (Fin q) \<and> fmul (Fin q) (Fin L) = Fin p
           \<and> \<bar>p - 1000\<bar> \<le> pow2 (- 43)"
proof -
  have Lpos: "0 < L" using lo pow2_pos [of "- 1000"] by linarith
  define x where "x = 1000 / L"
  have xpos: "0 < x" using Lpos by (simp add: x_def)
  have xL: "x * L = 1000" using Lpos by (simp add: x_def)
  define e where "e = binade x"
  have xn: "x \<noteq> 0" using xpos by simp
  from binade_bounds [OF xn] xpos have b: "pow2 e \<le> x" "x < pow2 (e + 1)"
    by (simp_all add: e_def)
  have p9: "pow2 9 = 512" and p10: "pow2 10 = 1024" by (simp_all add: pow2_def)
  have "pow2 (- 1015) * L < pow2 (- 1015) * pow2 1024"
    using hi by simp
  also have "\<dots> = pow2 9" using pow2_add [of "- 1015" 1024] by simp
  also have "\<dots> < x * L" by (simp add: xL p9)
  finally have "pow2 (- 1015) < x" using Lpos by simp
  with b(2) have "pow2 (- 1015) < pow2 (e + 1)" by linarith
  then have "- 1015 < e + 1" by (simp only: pow2_less_iff)
  then have e_lo: "- 1016 < e" by simp
  have "x * pow2 (- 1000) \<le> x * L" using lo xpos by simp
  also have "\<dots> < pow2 10" by (simp add: xL p10)
  finally have "x * pow2 (- 1000) < pow2 10" .
  moreover have "pow2 10 = pow2 1010 * pow2 (- 1000)" using pow2_add [of 1010 "- 1000"] by simp
  ultimately have "x < pow2 1010" by simp
  with b(1) have "pow2 e < pow2 1010" by linarith
  then have e_hi: "e < 1010" by (simp only: pow2_less_iff)
  have ax: "\<bar>x\<bar> = x" using xpos by simp
  define q where "q = of_int (round_even (x / pow2 (e - 52))) * pow2 (e - 52)"
  have rq: "round_double x = Fin q" and eq: "\<bar>q - x\<bar> \<le> pow2 (e - 53)"
    using round_double_eval [of e x] b e_lo e_hi by (simp_all add: ax q_def)
  have div: "fdiv (Fin 1000) (Fin L) = Inr (Fin q)"
    using Lpos rq by (simp add: x_def)
  have "pow2 (e - 53) = pow2 e * pow2 (- 53)" using pow2_add [of e "- 53"] by simp
  also have "\<dots> \<le> x * pow2 (- 53)" using b(1) by simp
  finally have rel: "\<bar>q - x\<bar> \<le> x * pow2 (- 53)" using eq by linarith
  define y where "y = q * L"
  have "\<bar>y - 1000\<bar> = \<bar>q - x\<bar> * L"
  proof -
    have "y - 1000 = (q - x) * L" by (simp add: y_def left_diff_distrib xL)
    then show ?thesis using Lpos by (simp add: abs_mult)
  qed
  also have "\<dots> \<le> x * pow2 (- 53) * L" using rel Lpos by (simp add: mult_right_mono)
  also have "\<dots> = 1000 * pow2 (- 53)" using xL by (simp add: mult.commute mult.left_commute)
  also have "\<dots> < pow2 10 * pow2 (- 53)" by (simp add: p10)
  also have "\<dots> = pow2 (- 43)" using pow2_add [of 10 "- 53"] by simp
  finally have dy: "\<bar>y - 1000\<bar> < pow2 (- 43)" .
  have small: "pow2 (- 43) \<le> 1"
    using pow2_mono [of "- 43" 0] by (simp add: pow2_def)
  have yb: "pow2 9 \<le> \<bar>y\<bar>" "\<bar>y\<bar> < pow2 (9 + 1)"
    using dy small by (simp_all add: p9 p10)
  define p where "p = of_int (round_even (y / pow2 (9 - 52))) * pow2 (9 - 52)"
  have rp: "round_double y = Fin p"
    using round_double_eval(1) [OF yb] by (simp add: p_def)
  have mul: "fmul (Fin q) (Fin L) = Fin p" using rp by (simp add: y_def)
  define z where "z = y / pow2 (- 43)"
  define N :: int where "N = 1000 * 2 ^ 43"
  have up: "pow2 (- 43) * 2 ^ 43 = 1" by (simp add: pow2_def)
  have Nr: "of_int N * pow2 (- 43) = 1000"
    using up by (simp add: N_def mult.commute)
  have "\<bar>z - of_int N\<bar> * pow2 (- 43) = \<bar>y - 1000\<bar>"
  proof -
    have "(z - of_int N) * pow2 (- 43) = y - 1000"
      by (simp add: z_def left_diff_distrib Nr)
    moreover have "\<bar>z - of_int N\<bar> * pow2 (- 43) = \<bar>(z - of_int N) * pow2 (- 43)\<bar>"
      by (simp add: abs_mult)
    ultimately show ?thesis by simp
  qed
  with dy have "\<bar>z - of_int N\<bar> * pow2 (- 43) < 1 * pow2 (- 43)" by simp
  then have dz: "\<bar>z - of_int N\<bar> < 1" by simp
  have "\<bar>of_int (round_even z) - z\<bar> \<le> 1 / 2" by (rule round_even_err)
  with dz have "\<bar>(of_int (round_even z) :: real) - of_int N\<bar> < 2" by linarith
  then have "\<bar>(of_int (round_even z - N) :: real)\<bar> < of_int 2" by simp
  then have "\<bar>round_even z - N\<bar> < 2" by (simp only: of_int_abs [symmetric] of_int_less_iff)
  then have di: "\<bar>round_even z - N\<bar> \<le> 1" by simp
  have "p - 1000 = of_int (round_even z - N) * pow2 (- 43)"
    by (simp add: p_def z_def left_diff_distrib Nr)
  then have "\<bar>p - 1000\<bar> = of_int \<bar>round_even z - N\<bar> * pow2 (- 43)"
    by (simp add: abs_mult)
  also have "\<dots> \<le> of_int 1 * pow2 (- 43)"
  proof (rule mult_right_mono)
    show "(of_int \<bar>round_even z - N\<bar> :: real) \<le> of_int 1"
      using di by (simp only: of_int_le_iff)
    show "0 \<le> pow2 (- 43)" using pow2_pos [of "- 43"] by linarith
  qed
  finally have "\<bar>p - 1000\<bar> \<le> pow2 (- 43)" by simp
  with div mul show ?thesis by blast
qed

lemma round_double_dyadic:
  assumes "x = of_int m / 2 ^ n" "\<bar>m\<bar> < 2 ^ 53" "n \<le> 1074" "\<bar>x\<bar> < 2 ^ 1024"
  shows "round_double x = Fin x"
proof (rule round_double_exact [where m = m and k = "- int n"])
  show "x = of_int m * pow2 (- int n)"
    using assms(1) by (cases "n = 0") (simp_all add: pow2_def)
  show "\<bar>m\<bar> < 2 ^ 53" by (rule assms(2))
  show "- 1074 \<le> - int n" using assms(3) by simp
  have "pow2 1024 = 2 ^ 1024" by (simp add: pow2_def)
  with assms(4) show "\<bar>x\<bar> < pow2 1024" by simp
qed

lemma slow_preprocess_ms: "elapsed_ms 0 (1 / 1024) = Fin (125 / 128)"
proof -
  have a: "round_double (1 / 1024) = Fin (1 / 1024)"
    by (rule round_double_dyadic [where m = 1 and n = 10]) simp_all
  have b: "round_double (125 / 128) = Fin (125 / 128)"
    by (rule round_double_dyadic [where m = 125 and n = 7]) simp_all
  show ?thesis by (simp add: elapsed_ms_def fsub_def a b)
qed

lemma slow_exec_ms: "elapsed_ms (1 / 1024) (75 / 1024) = Fin (4625 / 64)"
proof -
  have a: "round_double (37 / 512) = Fin (37 / 512)"
    by (rule round_double_dyadic [where m = 37 and n = 9]) simp_all
  have b: "round_double (4625 / 64) = Fin (4625 / 64)"
    by (rule round_double_dyadic [where m = 4625 and n = 6]) simp_all
  show ?thesis by (simp add: elapsed_ms_def fsub_def a b)
qed

lemma slow_latency: "fadd (Fin (125 / 128)) (Fin (4625 / 64)) = Fin (9375 / 128)"
proof -
  have "round_double (9375 / 128) = Fin (9375 / 128)"
    by (rule round_double_dyadic [where m = 9375 and n = 7]) simp_all
  then show ?thesis by simp
qed

lemma slow_throughput:
  "throughput_of (Fin (9375 / 128)) = Inr (Fin (7686143364045647 / 562949953421312))"
proof -
  have r: "round_even (1024 / 75 / pow2 (3 - 52)) = 7686143364045647"
    by (simp add: round_even_def pow2_def Let_def)
  have "round_double (1024 / 75) =
      Fin (of_int (round_even (1024 / 75 / pow2 (3 - 52))) * pow2 (3 - 52))"
    by (rule round_double_eval(1)) (simp_all add: pow2_def)
  then have "round_double (1024 / 75) = Fin (7686143364045647 / 562949953421312)"
    unfolding r by (simp add: pow2_def)
  then show ?thesis by (simp add: throughput_of_def)
qed

lemma slow_product:
  "fmul (Fin (7686143364045647 / 562949953421312)) (Fin (9375 / 128)) =
     Fin (8796093022208001 / 8796093022208)"
proof -
  define y :: real where "y = 7686143364045647 / 562949953421312 * (9375 / 128)"
  have r: "round_even (y / pow2 (9 - 52)) = 8796093022208001"
    by (simp add: y_def round_even_def pow2_def Let_def)
  have "round_double y = Fin (of_int (round_even (y / pow2 (9 - 52))) * pow2 (9 - 52))"
    by (rule round_double_eval(1)) (simp_all add: y_def pow2_def)
  then have "round_double y = Fin (8796093022208001 / 8796093022208)"
    unfolding r by (simp add: pow2_def)
  then show ?thesis by (simp add: y_def)
qed

lemma toy_preprocess_ms: "elapsed_ms 0 (1 / 128) = Fin (125 / 16)"
proof -
  have a: "round_double (1 / 128) = Fin (1 / 128)"
    by (rule round_double_dyadic [where m = 1 and n = 7]) simp_all
  have b: "round_double (125 / 16) = Fin (125 / 16)"
    by (rule round_double_dyadic [where m = 125 and n = 4]) simp_all
  show ?thesis by (simp add: elapsed_ms_def fsub_def a b)
qed

lemma toy_exec_ms: "elapsed_ms (1 / 64) (3 / 64) = Fin (125 / 4)"
proof -
  have a: "round_double (1 / 32) = Fin (1 / 32)"
    by (rule round_double_dyadic [where m = 1 and n = 5]) simp_all
  have b: "round_double (125 / 4) = Fin (125 / 4)"
    by (rule round_double_dyadic [where m = 125 and n = 2]) simp_all
  show ?thesis by (simp add: elapsed_ms_def fsub_def a b)
qed

lemma toy_latency: "fadd (Fin (125 / 16)) (Fin (125 / 4)) = Fin (625 / 16)"
proof -
  have "round_double (625 / 16) = Fin (625 / 16)"
    by (rule round_double_dyadic [where m = 625 and n = 4]) simp_all
  then show ?thesis by simp
qed

lemma toy_throughput:
  "throughput_of (Fin (625 / 16)) = Inr (Fin (3602879701896397 / 140737488355328))"
proof -
  have r: "round_even (128 / 5 / pow2 (4 - 52)) = 7205759403792794"
    by (simp add: round_even_def pow2_def Let_def)
  have "round_double (128 / 5) =
      Fin (of_int (round_even (128 / 5 / pow2 (4 - 52))) * pow2 (4 - 52))"
    by (rule round_double_eval(1)) (simp_all add: pow2_def)
  then have "round_double (128 / 5) = Fin (3602879701896397 / 140737488355328)"
    unfolding r by (simp add: pow2_def)
  then show ?thesis by (simp add: throughput_of_def)
qed

section \<open>Prediction: ranking, latency and throughput\<close>

lemma elem_le_sum_list_real:
  fixes zs :: "real list"
  assumes "\<forall>z\<in>set zs. 0 \<le> z" "y \<in> set zs"
  shows "y \<le> sum_list zs"
  using assms
proof (induction zs)
  case Nil
  then show ?case by simp
next
  case (Cons z zs)
  have nn: "0 \<le> sum_list zs" using Cons.prems(1) by (simp add: sum_list_nonneg)
  show ?case
  proof (cases "y = z")
    case True
    with nn show ?thesis by simp
  next
    case False
    with Cons have "y \<le> sum_list zs" by simp
    moreover have "0 \<le> z" using Cons.prems(1) by simp
    ultimately show ?thesis by simp
  qed
qed

lemma softmax_range:
  assumes "p \<in> set (softmax xs)"
  shows "0 \<le> p \<and> p \<le> 1"
proof -
  from assms obtain x where x: "x \<in> set xs" and p: "p = exp x / sum_list (map exp xs)"
    by (auto simp: softmax_def)
  have le: "exp x \<le> sum_list (map exp xs)"
    by (rule elem_le_sum_list_real) (use x in auto)
  have pos: "0 < sum_list (map exp xs)"
    using le exp_gt_zero [of x] by linarith
  show ?thesis
    unfolding p using le pos by (simp add: divide_le_eq_1)
qed

lemma length_softmax: "length (softmax xs) = length xs"
  by (simp add: softmax_def)

lemma topk_ok:
  assumes "k \<le> length scores"
  shows "\<exists>best. topk rank k scores = Inr best \<and> length best = k
           \<and> sorted_wrt (\<lambda>a b. fst b \<le> fst a) best
           \<and> (\<forall>q\<in>set best. fst q \<in> set scores \<and> snd q < length scores)"
proof -
  define all where
    "all = sort_key (\<lambda>p. - fst p) (sort_key (\<lambda>p. rank (snd p)) (zip scores [0 ..< length scores]))"
  have tk: "topk rank k scores = Inr (take k all)"
    using assms by (simp add: topk_def all_def)
  have len: "length (take k all) = k"
    using assms by (simp add: all_def)
  have "sorted (map (\<lambda>p. - fst p) all)"
    by (simp add: all_def)
  then have "sorted_wrt (\<lambda>a b. fst b \<le> fst a) all"
    by (simp add: sorted_map)
  then have srt: "sorted_wrt (\<lambda>a b. fst b \<le> fst a) (take k all)"
    by (rule sorted_wrt_take)
  have mem: "fst q \<in> set scores \<and> snd q < length scores" if "q \<in> set (take k all)" for q
  proof -
    from that have "q \<in> set all" by (rule in_set_takeD)
    then have "q \<in> set (zip scores [0 ..< length scores])" by (simp add: all_def)
    moreover obtain a b where q: "q = (a, b)" by (cases q)
    ultimately have "a \<in> set scores" "b \<in> set [0 ..< length scores]"
      by (auto dest: set_zip_leftD set_zip_rightD)
    then show ?thesis by (simp add: q)
  qed
  from tk len srt mem show ?thesis by blast
qed

lemma topk_sound:
  assumes "topk rank k scores = Inr best"
  shows "length best = k \<and> sorted_wrt (\<lambda>a b. fst b \<le> fst a) best
       \<and> (\<forall>q\<in>set best. fst q \<in> set scores \<and> snd q < length scores)"
proof -
  from assms have "k \<le> length scores"
    by (auto simp: topk_def split: if_splits)
  from topk_ok [OF this, of rank] assms show ?thesis by auto
qed

lemma top_candidates_sound:
  "top_candidates lbls best = Inr cs \<Longrightarrow> map confidence cs = map fst best"
proof (induction lbls best arbitrary: cs rule: top_candidates.induct)
  case (1 lbls)
  then show ?case by simp
next
  case (2 lbls score idx rest)
  then show ?case
    by (auto simp: ClassificationCandidate_new_def split: if_splits sum.splits)
qed

lemma top_candidates_ok:
  assumes "\<forall>q\<in>set best. 0 \<le> fst q \<and> fst q \<le> 1 \<and> snd q < length lbls"
  shows "\<exists>cs. top_candidates lbls best = Inr cs"
  using assms
proof (induction lbls best rule: top_candidates.induct)
  case (1 lbls)
  then show ?case by simp
next
  case (2 lbls score idx rest)
  have idx: "\<not> \<not> idx < length lbls" using "2.prems" by simp
  have new: "ClassificationCandidate_new (lbls ! idx) score =
               Inr \<lparr> label = lbls ! idx, confidence = score \<rparr>"
    using "2.prems" by (simp add: ClassificationCandidate_new_def)
  have "\<exists>cs. top_candidates lbls rest = Inr cs"
    by (rule "2.IH" [OF idx new]) (use "2.prems" in simp)
  then obtain cs where "top_candidates lbls rest = Inr cs" by blast
  with idx new show ?case by simp
qed

lemma postprocess_sound:
  assumes "postprocess rank lbls outputs engine_name pre ex bs = Inr r"
  shows "length (top5 r) = 5
       \<and> sorted_wrt (\<lambda>a b. confidence b \<le> confidence a) (top5 r)
       \<and> top1 r = top5 r ! 0
       \<and> latency_ms r = fadd pre ex
       \<and> throughput_of (latency_ms r) = Inr (throughput_fps r)
       \<and> nonneg_pyfloat (latency_ms r)
       \<and> engine r = engine_name \<and> batch_size r = bs"
proof -
  from assms obtain out0 others where o: "outputs = out0 # others"
    by (cases outputs) (auto simp: postprocess_def)
  from assms o obtain best where b: "topk rank 5 (softmax out0) = Inr best"
    by (cases "topk rank 5 (softmax out0)") (auto simp: postprocess_def)
  from assms o b obtain cands where c: "top_candidates lbls best = Inr cands"
    by (cases "top_candidates lbls best") (auto simp: postprocess_def)
  from assms o b c obtain thr where t: "throughput_of (fadd pre ex) = Inr thr"
    by (cases "throughput_of (fadd pre ex)") (auto simp: postprocess_def Let_def)
  from assms o b c t obtain c0 cs where cc: "cands = c0 # cs"
    by (cases cands) (auto simp: postprocess_def Let_def)
  from assms o b c t cc have new:
    "InferenceResponse_new c0 cands (fadd pre ex) thr engine_name bs = Inr r"
    by (simp add: postprocess_def Let_def)
  then have r: "r = \<lparr> top1 = c0, top5 = cands, latency_ms = fadd pre ex,
                      throughput_fps = thr, engine = engine_name, batch_size = bs \<rparr>"
    and nn: "nonneg_pyfloat (fadd pre ex)"
    by (auto simp: InferenceResponse_new_def split: if_splits)
  note tk = topk_sound [OF b]
  note mc = top_candidates_sound [OF c]
  have len: "length cands = 5"
    using tk mc by (metis length_map)
  have "sorted_wrt (\<lambda>a b. b \<le> a) (map fst best)"
    using tk by (simp add: sorted_wrt_map)
  then have "sorted_wrt (\<lambda>a b. b \<le> a) (map confidence cands)"
    by (simp add: mc)
  then have srt: "sorted_wrt (\<lambda>a b. confidence b \<le> confidence a) cands"
    by (simp add: sorted_wrt_map)
  show ?thesis
    using len srt nn t by (simp add: r cc)
qed

lemma postprocess_ok:
  assumes "5 \<le> length out0" "length out0 \<le> length lbls"
    "nonneg_pyfloat pre" "nonneg_pyfloat ex" "0 < bs"
  shows "\<exists>r. postprocess rank lbls (out0 # others) engine_name pre ex bs = Inr r"
proof -
  from topk_ok [of 5 "softmax out0" rank] assms(1) obtain best where
    b: "topk rank 5 (softmax out0) = Inr best" and l5: "length best = 5" and
    mem: "\<forall>q\<in>set best. fst q \<in> set (softmax out0) \<and> snd q < length (softmax out0)"
    by (auto simp: length_softmax)
  have "\<forall>q\<in>set best. 0 \<le> fst q \<and> fst q \<le> 1 \<and> snd q < length lbls"
    using mem softmax_range assms(2) by (fastforce simp: length_softmax)
  from top_candidates_ok [OF this] obtain cands where c: "top_candidates lbls best = Inr cands"
    by blast
  from top_candidates_sound [OF c] l5 have "length cands = 5" by (metis length_map)
  then obtain c0 cs where cc: "cands = c0 # cs" by (cases cands) auto
  have nn: "nonneg_pyfloat (fadd pre ex)"
    by (rule fadd_nonneg [OF assms(3,4)])
  from throughput_of_nonneg [OF nn] obtain thr where
    t: "throughput_of (fadd pre ex) = Inr thr" "nonneg_pyfloat thr"
    by blast
  show ?thesis
    using b c cc assms(5) nn t
    by (simp add: postprocess_def Let_def InferenceResponse_new_def)
qed

lemma predict_result:
  assumes "result (predict ops self image_bytes T) = Inr r"
  shows "\<exists>outputs engine_name bs.
           postprocess (tie_rank ops) (labels self) outputs engine_name
             (elapsed_ms (preprocess_start T) (preprocess_end T))
             (elapsed_ms (exec_start T) (exec_end T)) bs = Inr r"
proof (cases "image_open ops image_bytes")
  case (Inl e)
  with assms show ?thesis by (simp add: predict_def)
next
  case (Inr img)
  define tensor where
    "tensor = to_device ops self (ensure_batch ops (preprocessor_call ops (preprocessor_of self) img))"
  show ?thesis
  proof (cases "execute ops self tensor")
    case (Inl e)
    with assms Inr show ?thesis by (simp add: predict_def Let_def tensor_def)
  next
    case ex: (Inr oe)
    obtain outputs engine_name where oe: "oe = (outputs, engine_name)" by (cases oe)
    from assms Inr ex oe have
      "postprocess (tie_rank ops) (labels self) outputs engine_name
         (elapsed_ms (preprocess_start T) (preprocess_end T))
         (elapsed_ms (exec_start T) (exec_end T)) (shape0 ops tensor) = Inr r"
      by (simp add: predict_def Let_def tensor_def)
    then show ?thesis by blast
  qed
qed

lemma predict_returns:
  assumes "image_open ops image_bytes = Inr img"
    and "execute ops self
           (to_device ops self (ensure_batch ops (preprocessor_call ops (preprocessor_of self) img))) =
         Inr (out0 # others, engine_name)"
    and "5 \<le> length out0" "length out0 \<le> length (labels self)"
    and "preprocess_start T \<le> preprocess_end T" "exec_start T \<le> exec_end T"
    and "0 < shape0 ops
           (to_device ops self (ensure_batch ops (preprocessor_call ops (preprocessor_of self) img)))"
  shows "\<exists>r. result (predict ops self image_bytes T) = Inr r"
proof -
  note n1 = elapsed_nonneg [OF assms(5)]
  note n2 = elapsed_nonneg [OF assms(6)]
  from postprocess_ok [OF assms(3,4) n1 n2 assms(7), of "tie_rank ops" others engine_name]
  show ?thesis
    using assms(1,2) by (simp add: predict_def Let_def)
qed

text \<open>The latency and the throughput of a response, in double precision.\<close>

lemma latency_throughput_sound:
  assumes "result (predict ops self image_bytes T) = Inr r"
  shows "latency_ms r =
           fadd (elapsed_ms (preprocess_start T) (preprocess_end T))
                (elapsed_ms (exec_start T) (exec_end T))"
    and "throughput_of (latency_ms r) = Inr (throughput_fps r)"
    and "nonneg_pyfloat (latency_ms r)"
proof -
  from predict_result [OF assms] obtain outputs engine_name bs where
    "postprocess (tie_rank ops) (labels self) outputs engine_name
       (elapsed_ms (preprocess_start T) (preprocess_end T))
       (elapsed_ms (exec_start T) (exec_end T)) bs = Inr r"
    by blast
  note ps = postprocess_sound [OF this]
  from ps show "latency_ms r =
           fadd (elapsed_ms (preprocess_start T) (preprocess_end T))
                (elapsed_ms (exec_start T) (exec_end T))" by simp
  from ps show "throughput_of (latency_ms r) = Inr (throughput_fps r)" by blast
  from ps show "nonneg_pyfloat (latency_ms r)" by blast
qed




lemma toy_predict_returns:
  "\<exists>r. result (predict toy_ops cpu_engine ''png'' T) = Inr r"
  if "preprocess_start T \<le> preprocess_end T" "exec_start T \<le> exec_end T"
proof -
  have a: "image_open toy_ops ''png'' = Inr 3" by (simp add: toy_ops_def)
  have b: "execute toy_ops cpu_engine
       (to_device toy_ops cpu_engine
          (ensure_batch toy_ops (preprocessor_call toy_ops (preprocessor_of cpu_engine) 3))) =
      Inr ([ln 1, ln 4, ln 2, ln 3, ln 6, ln 4] # [], ''PyTorch'')"
    by (simp add: toy_ops_def cpu_engine_def execute_def to_device_def ensure_batch_def)
  have c: "5 \<le> length [ln 1, ln 4, ln 2, ln 3, ln 6, ln (4::real)]" by simp
  have d: "length [ln 1, ln 4, ln 2, ln 3, ln 6, ln (4::real)] \<le> length (labels cpu_engine)"
    by (simp add: cpu_engine_def)
  have e: "0 < shape0 toy_ops
       (to_device toy_ops cpu_engine
          (ensure_batch toy_ops (preprocessor_call toy_ops (preprocessor_of cpu_engine) 3)))"
    by (simp add: toy_ops_def)
  show ?thesis
    by (rule predict_returns [OF a b c d that e])
qed

text \<open>
  C7, as amended. In every response that \<open>predict\<close> returns, \<open>latency_ms\<close> is the
  double-precision sum of the preprocessing time and the execution time in
  milliseconds, and \<open>throughput_fps\<close> is the double nearest to \<open>1000 / latency_ms\<close>
  when the latency is positive and infinite when it is zero. The product of throughput
  and latency, computed in double precision, is within \<open>pow2 (- 43)\<close> (about \<open>1.2e-13\<close>) of
  1000 whenever the latency is at least \<open>pow2 (- 1000)\<close> milliseconds; it need not be equal
  to 1000.
\<close>

theorem predict_latency_throughput:
  assumes "result (predict ops self image_bytes T) = Inr r"
  shows "latency_ms r =
           fadd (elapsed_ms (preprocess_start T) (preprocess_end T))
                (elapsed_ms (exec_start T) (exec_end T))
       \<and> throughput_of (latency_ms r) = Inr (throughput_fps r)
       \<and> (\<forall>L. latency_ms r = Fin L \<and> 0 < L \<longrightarrow> throughput_fps r = round_double (1000 / L))
       \<and> (latency_ms r = Fin 0 \<longrightarrow> throughput_fps r = PosInf)
       \<and> (\<forall>L. latency_ms r = Fin L \<and> pow2 (- 1000) \<le> L \<longrightarrow>
            (\<exists>p. fmul (throughput_fps r) (latency_ms r) = Fin p \<and> \<bar>p - 1000\<bar> \<le> pow2 (- 43)))"
proof -
  note s = latency_throughput_sound [OF assms]
  have q: "throughput_fps r = round_double (1000 / L)" if "latency_ms r = Fin L \<and> 0 < L" for L
    using s(2) that by (simp add: throughput_of_def)
  have z: "throughput_fps r = PosInf" if "latency_ms r = Fin 0"
    using s(2) that by (simp add: throughput_of_def)
  have p: "\<exists>p. fmul (throughput_fps r) (latency_ms r) = Fin p \<and> \<bar>p - 1000\<bar> \<le> pow2 (- 43)"
    if h: "latency_ms r = Fin L \<and> pow2 (- 1000) \<le> L" for L
  proof -
    from h have lat: "latency_ms r = Fin L" and lo: "pow2 (- 1000) \<le> L" by simp_all
    have Lpos: "0 < L" using lo pow2_pos [of "- 1000"] by linarith
    from s(1) lat have "fadd (elapsed_ms (preprocess_start T) (preprocess_end T))
                (elapsed_ms (exec_start T) (exec_end T)) = Fin L" by simp
    from fadd_Fin_bound [OF this] Lpos have hi: "L < pow2 1024" by simp
    from product_near_1000 [OF lo hi] obtain q p where
      qp: "fdiv (Fin 1000) (Fin L) = Inr (Fin q)" "fmul (Fin q) (Fin L) = Fin p"
          "\<bar>p - 1000\<bar> \<le> pow2 (- 43)"
      by blast
    from s(2) lat Lpos qp(1) have "throughput_fps r = Fin q"
      by (simp add: throughput_of_def)
    with qp lat show ?thesis by simp
  qed
  from s(1,2) q z p show ?thesis by blast
qed

theorem predict_latency_throughput_witness:
  "\<exists>r. result (predict toy_ops cpu_engine ''png'' toy_timings) = Inr r
       \<and> latency_ms r = Fin (625 / 16)
       \<and> pow2 (- 1000) \<le> 625 / 16
       \<and> throughput_fps r = Fin (3602879701896397 / 140737488355328)
       \<and> (\<exists>p. fmul (throughput_fps r) (latency_ms r) = Fin p \<and> \<bar>p - 1000\<bar> \<le> pow2 (- 43))"
proof -
  have "\<exists>r. result (predict toy_ops cpu_engine ''png'' toy_timings) = Inr r"
    by (rule toy_predict_returns) (simp_all add: toy_timings_def)
  then obtain r where r: "result (predict toy_ops cpu_engine ''png'' toy_timings) = Inr r"
    by blast
  note t = predict_latency_throughput [OF r]
  have e: "elapsed_ms (preprocess_start toy_timings) (preprocess_end toy_timings) = Fin (125 / 16)"
    "elapsed_ms (exec_start toy_timings) (exec_end toy_timings) = Fin (125 / 4)"
    by (simp_all add: toy_timings_def toy_preprocess_ms toy_exec_ms)
  from t [THEN conjunct1] have lat: "latency_ms r = Fin (625 / 16)"
    by (simp only: e toy_latency)
  from t [THEN conjunct2, THEN conjunct1] have thr:
    "throughput_fps r = Fin (3602879701896397 / 140737488355328)"
    unfolding lat toy_throughput by simp
  have "pow2 (- 1000) \<le> pow2 0" by (rule pow2_mono) simp
  then have lo: "pow2 (- 1000) \<le> 625 / 16" by (simp add: pow2_def)
  from t [THEN conjunct2, THEN conjunct2, THEN conjunct2, THEN conjunct2] lat lo
  have "\<exists>p. fmul (throughput_fps r) (latency_ms r) = Fin p \<and> \<bar>p - 1000\<bar> \<le> pow2 (- 43)"
    by blast
  with r lat lo thr show ?thesis by blast
qed

text \<open>
  The claim C7 as it was stated fails in double precision: with 0.9765625 ms of
  preprocessing and 72.265625 ms of execution the latency is 73.2421875 ms, and the
  product of the returned throughput and latency is \<open>1000 + pow2 (- 43)\<close>, the double
  next above 1000, not 1000.
\<close>

theorem predict_latency_throughput_counterexample:
  "\<not> isl (result (predict toy_ops cpu_engine ''png'' slow_timings))
   \<and> latency_ms (projr (result (predict toy_ops cpu_engine ''png'' slow_timings))) = Fin (9375 / 128)
   \<and> throughput_fps (projr (result (predict toy_ops cpu_engine ''png'' slow_timings))) =
       Fin (7686143364045647 / 562949953421312)
   \<and> fmul (throughput_fps (projr (result (predict toy_ops cpu_engine ''png'' slow_timings))))
           (latency_ms (projr (result (predict toy_ops cpu_engine ''png'' slow_timings)))) =
       Fin (8796093022208001 / 8796093022208)
   \<and> fmul (throughput_fps (projr (result (predict toy_ops cpu_engine ''png'' slow_timings))))
           (latency_ms (projr (result (predict toy_ops cpu_engine ''png'' slow_timings)))) \<noteq>
       Fin 1000"
proof -
  have "\<exists>r. result (predict toy_ops cpu_engine ''png'' slow_timings) = Inr r"
    by (rule toy_predict_returns) (simp_all add: slow_timings_def)
  then obtain r where r: "result (predict toy_ops cpu_engine ''png'' slow_timings) = Inr r"
    by blast
  note s = latency_throughput_sound [OF r]
  have e: "elapsed_ms (preprocess_start slow_timings) (preprocess_end slow_timings) = Fin (125 / 128)"
    "elapsed_ms (exec_start slow_timings) (exec_end slow_timings) = Fin (4625 / 64)"
    by (simp_all add: slow_timings_def slow_preprocess_ms slow_exec_ms)
  from s(1) have lat: "latency_ms r = Fin (9375 / 128)"
    by (simp only: e slow_latency)
  from s(2) have thr: "throughput_fps r = Fin (7686143364045647 / 562949953421312)"
    unfolding lat slow_throughput by simp
  have prod: "fmul (throughput_fps r) (latency_ms r) = Fin (8796093022208001 / 8796093022208)"
    unfolding lat thr by (rule slow_product)
  have ne: "fmul (throughput_fps r) (latency_ms r) \<noteq> Fin 1000"
    unfolding prod by simp
  from lat thr prod ne show ?thesis by (simp add: r)
qed

section \<open>The singleton accessor: one construction, one instance\<close>

lemma invariant_initial: "invariant ctor_ok initial"
  by (simp add: invariant_def initial_def mutex_def some_holder_def storing_def)

lemma mutex_upd_keep:
  assumes "mutex P" "holds_lock p' \<Longrightarrow> holds_lock (P t)"
  shows "mutex (P(t := p'))"
  using assms unfolding mutex_def by (metis fun_upd_apply)

lemma mutex_upd_acquire:
  assumes "\<not> some_holder P"
  shows "mutex (P(t := p'))"
  using assms unfolding mutex_def some_holder_def by (metis fun_upd_apply)

lemma holder_upd_same:
  assumes "holds_lock p' = holds_lock (P t)"
  shows "some_holder (P(t := p')) = some_holder P"
  using assms unfolding some_holder_def by (metis fun_upd_apply)

lemma holder_upd_release:
  assumes "mutex P" "holds_lock (P t)" "\<not> holds_lock p'"
  shows "\<not> some_holder (P(t := p'))"
  using assms unfolding some_holder_def mutex_def by (metis fun_upd_apply)

lemma holder_upd_acquire:
  assumes "holds_lock p'"
  shows "some_holder (P(t := p'))"
  using assms unfolding some_holder_def by (metis fun_upd_apply)

lemma others_idle:
  assumes "mutex P" "holds_lock (P t)" "u \<noteq> t"
  shows "\<not> holds_lock (P u)"
  using assms unfolding mutex_def by blast

lemma storing_upd_other:
  assumes "\<forall>i. P t \<noteq> AtStore i" "\<forall>i. p' \<noteq> AtStore i"
  shows "storing (P(t := p')) = storing P"
  using assms unfolding storing_def by (metis fun_upd_apply)

lemma storing_upd_store: "storing (P(t := AtStore i))"
  unfolding storing_def by (metis fun_upd_apply)

lemma not_storing_holder:
  assumes "mutex P" "holds_lock (P t)" "\<forall>i. P t \<noteq> AtStore i"
  shows "\<not> storing P"
proof
  assume "storing P"
  then obtain u i where u: "P u = AtStore i" by (auto simp: storing_def)
  then have "holds_lock (P u)" by simp
  with assms(1,2) have "u = t" by (auto simp: mutex_def)
  with u assms(3) show False by simp
qed

lemma local_ok_eq:
  assumes "ENGINE s' = ENGINE s" "constructions s' = constructions s"
  shows "local_ok ok s' p = local_ok ok s p"
  using assms by (cases p) auto

lemma local_ok_construct:
  assumes "local_ok ok s p" "\<not> holds_lock p" "ENGINE s' = ENGINE s"
    "constructions s' = Suc (constructions s)"
  shows "local_ok ok s' p"
  using assms by (cases p) (auto simp: less_Suc_eq)

lemma local_ok_store:
  assumes "local_ok ok s p" "\<not> holds_lock p" "ENGINE s = None"
    "constructions s' = constructions s"
  shows "local_ok ok s' p"
  using assms by (cases p) auto

lemma pc_only_step:
  assumes inv: "invariant ok s"
    and hl: "holds_lock p' = holds_lock (pcs s t)"
    and ns: "\<forall>i. pcs s t \<noteq> AtStore i" "\<forall>i. p' \<noteq> AtStore i"
    and lo: "local_ok ok s p'"
  shows "invariant ok (s\<lparr>pcs := (pcs s)(t := p')\<rparr>)"
proof -
  define s' where "s' = s\<lparr>pcs := (pcs s)(t := p')\<rparr>"
  have f: "ENGINE s' = ENGINE s" "constructions s' = constructions s"
    "ENGINE_LOCK s' = ENGINE_LOCK s" "pcs s' = (pcs s)(t := p')"
    by (simp_all add: s'_def)
  from inv have i: "mutex (pcs s)" "ENGINE_LOCK s \<longleftrightarrow> some_holder (pcs s)"
    "\<forall>u. local_ok ok s (pcs s u)"
    "\<forall>i. ENGINE s = Some i \<longrightarrow> Suc i = constructions s \<and> ok i"
    "\<forall>k. Suc k < constructions s \<longrightarrow> \<not> ok k"
    "ENGINE s = None \<and> \<not> storing (pcs s) \<longrightarrow> (\<forall>k < constructions s. \<not> ok k)"
    by (simp_all add: invariant_def)
  have 1: "mutex (pcs s')"
    unfolding f by (rule mutex_upd_keep [OF i(1)]) (simp add: hl)
  have 2: "ENGINE_LOCK s' \<longleftrightarrow> some_holder (pcs s')"
    unfolding f using i(2) holder_upd_same [where P = "pcs s" and t = t and p' = p', OF hl] by simp
  have 3: "\<forall>u. local_ok ok s' (pcs s' u)"
  proof
    fix u
    show "local_ok ok s' (pcs s' u)"
      using lo i(3) by (simp add: f(4) local_ok_eq [OF f(1,2)])
  qed
  have st: "storing (pcs s') = storing (pcs s)"
    unfolding f by (rule storing_upd_other [where P = "pcs s" and t = t and p' = p', OF ns])
  have "invariant ok s'"
    unfolding invariant_def using 1 2 3 i(4,5,6) by (simp add: f(1,2) st)
  then show ?thesis by (simp add: s'_def)
qed

lemma acquire_step:
  assumes inv: "invariant ok s" and pc: "pcs s t = AtAcquire" and free: "\<not> ENGINE_LOCK s"
  shows "invariant ok (s\<lparr>ENGINE_LOCK := True, pcs := (pcs s)(t := AtCheck2)\<rparr>)"
proof -
  define s' where "s' = s\<lparr>ENGINE_LOCK := True, pcs := (pcs s)(t := AtCheck2)\<rparr>"
  have f: "ENGINE s' = ENGINE s" "constructions s' = constructions s"
    "ENGINE_LOCK s' = True" "pcs s' = (pcs s)(t := AtCheck2)"
    by (simp_all add: s'_def)
  from inv have i: "mutex (pcs s)" "ENGINE_LOCK s \<longleftrightarrow> some_holder (pcs s)"
    "\<forall>u. local_ok ok s (pcs s u)"
    "\<forall>i. ENGINE s = Some i \<longrightarrow> Suc i = constructions s \<and> ok i"
    "\<forall>k. Suc k < constructions s \<longrightarrow> \<not> ok k"
    "ENGINE s = None \<and> \<not> storing (pcs s) \<longrightarrow> (\<forall>k < constructions s. \<not> ok k)"
    by (simp_all add: invariant_def)
  have nh: "\<not> some_holder (pcs s)" using free i(2) by simp
  have 1: "mutex (pcs s')"
    unfolding f by (rule mutex_upd_acquire [OF nh])
  have 2: "ENGINE_LOCK s' \<longleftrightarrow> some_holder (pcs s')"
    unfolding f using holder_upd_acquire [of AtCheck2 "pcs s" t] by simp
  have 3: "\<forall>u. local_ok ok s' (pcs s' u)"
  proof
    fix u
    show "local_ok ok s' (pcs s' u)"
      using i(3) by (simp add: f(4) local_ok_eq [OF f(1,2)])
  qed
  have st: "storing (pcs s') = storing (pcs s)"
    unfolding f by (rule storing_upd_other) (simp_all add: pc)
  have "invariant ok s'"
    unfolding invariant_def using 1 2 3 i(4,5,6) by (simp add: f(1,2) st)
  then show ?thesis by (simp add: s'_def)
qed

lemma release_step:
  assumes inv: "invariant ok s"
    and h: "holds_lock (pcs s t)" and nh: "\<not> holds_lock p'"
    and ns: "\<forall>i. pcs s t \<noteq> AtStore i"
    and lo: "local_ok ok s p'"
  shows "invariant ok (s\<lparr>ENGINE_LOCK := False, pcs := (pcs s)(t := p')\<rparr>)"
proof -
  define s' where "s' = s\<lparr>ENGINE_LOCK := False, pcs := (pcs s)(t := p')\<rparr>"
  have f: "ENGINE s' = ENGINE s" "constructions s' = constructions s"
    "ENGINE_LOCK s' = False" "pcs s' = (pcs s)(t := p')"
    by (simp_all add: s'_def)
  from inv have i: "mutex (pcs s)" "ENGINE_LOCK s \<longleftrightarrow> some_holder (pcs s)"
    "\<forall>u. local_ok ok s (pcs s u)"
    "\<forall>i. ENGINE s = Some i \<longrightarrow> Suc i = constructions s \<and> ok i"
    "\<forall>k. Suc k < constructions s \<longrightarrow> \<not> ok k"
    "ENGINE s = None \<and> \<not> storing (pcs s) \<longrightarrow> (\<forall>k < constructions s. \<not> ok k)"
    by (simp_all add: invariant_def)
  have 1: "mutex (pcs s')"
    unfolding f by (rule mutex_upd_keep [OF i(1)]) (simp add: nh)
  have 2: "ENGINE_LOCK s' \<longleftrightarrow> some_holder (pcs s')"
    unfolding f using holder_upd_release [OF i(1) h nh] by simp
  have 3: "\<forall>u. local_ok ok s' (pcs s' u)"
  proof
    fix u
    show "local_ok ok s' (pcs s' u)"
      using lo i(3) by (simp add: f(4) local_ok_eq [OF f(1,2)])
  qed
  have np: "\<forall>i. p' \<noteq> AtStore i" using nh by auto
  have st: "storing (pcs s') = storing (pcs s)"
    unfolding f by (rule storing_upd_other [where P = "pcs s" and t = t and p' = p', OF ns np])
  have "invariant ok s'"
    unfolding invariant_def using 1 2 3 i(4,5,6) by (simp add: f(1,2) st)
  then show ?thesis by (simp add: s'_def)
qed

lemma construct_step:
  assumes inv: "invariant ok s" and pc: "pcs s t = AtConstruct"
  shows "invariant ok
           (s\<lparr>constructions := Suc (constructions s),
              pcs := (pcs s)(t := (if ok (constructions s) then AtStore (constructions s)
                                   else AtReleaseRaise))\<rparr>)"
proof -
  define p' where "p' = (if ok (constructions s) then AtStore (constructions s) else AtReleaseRaise)"
  define s' where "s' = s\<lparr>constructions := Suc (constructions s), pcs := (pcs s)(t := p')\<rparr>"
  have f: "ENGINE s' = ENGINE s" "constructions s' = Suc (constructions s)"
    "ENGINE_LOCK s' = ENGINE_LOCK s" "pcs s' = (pcs s)(t := p')"
    by (simp_all add: s'_def)
  from inv have i: "mutex (pcs s)" "ENGINE_LOCK s \<longleftrightarrow> some_holder (pcs s)"
    "\<forall>u. local_ok ok s (pcs s u)"
    "\<forall>i. ENGINE s = Some i \<longrightarrow> Suc i = constructions s \<and> ok i"
    "\<forall>k. Suc k < constructions s \<longrightarrow> \<not> ok k"
    "ENGINE s = None \<and> \<not> storing (pcs s) \<longrightarrow> (\<forall>k < constructions s. \<not> ok k)"
    by (simp_all add: invariant_def)
  have h: "holds_lock (pcs s t)" by (simp add: pc)
  have hp: "holds_lock p'" by (simp add: p'_def)
  have none: "ENGINE s = None" using i(3) pc by (metis local_ok.simps(1))
  have nst: "\<not> storing (pcs s)"
    by (rule not_storing_holder [OF i(1) h]) (simp add: pc)
  have failed: "\<forall>k < constructions s. \<not> ok k" using i(6) none nst by simp
  have 1: "mutex (pcs s')"
    unfolding f by (rule mutex_upd_keep [OF i(1)]) (simp add: h)
  have 2: "ENGINE_LOCK s' \<longleftrightarrow> some_holder (pcs s')"
    unfolding f using i(2) holder_upd_same [of p' "pcs s" t] h hp by simp
  have 3: "\<forall>u. local_ok ok s' (pcs s' u)"
  proof
    fix u
    show "local_ok ok s' (pcs s' u)"
    proof (cases "u = t")
      case True
      then show ?thesis by (auto simp: f none p'_def)
    next
      case False
      have "local_ok ok s' (pcs s u)"
        by (rule local_ok_construct [OF _ others_idle [OF i(1) h False] f(1,2)]) (simp add: i(3))
      with False show ?thesis by (simp add: f(4))
    qed
  qed
  have 4: "\<forall>i. ENGINE s' = Some i \<longrightarrow> Suc i = constructions s' \<and> ok i"
    by (simp add: f none)
  have 5: "\<forall>k. Suc k < constructions s' \<longrightarrow> \<not> ok k"
    using failed by (simp add: f)
  have 6: "ENGINE s' = None \<and> \<not> storing (pcs s') \<longrightarrow> (\<forall>k < constructions s'. \<not> ok k)"
  proof (cases "ok (constructions s)")
    case True
    then have "storing (pcs s')" by (simp add: f p'_def storing_upd_store)
    then show ?thesis by simp
  next
    case False
    with failed show ?thesis by (auto simp: f less_Suc_eq)
  qed
  have "invariant ok s'"
    unfolding invariant_def using 1 2 3 4 5 6 by blast
  then show ?thesis by (simp add: s'_def p'_def)
qed

lemma store_step:
  assumes inv: "invariant ok s" and pc: "pcs s t = AtStore i"
  shows "invariant ok (s\<lparr>ENGINE := Some i, pcs := (pcs s)(t := AtRelease)\<rparr>)"
proof -
  define s' where "s' = s\<lparr>ENGINE := Some i, pcs := (pcs s)(t := AtRelease)\<rparr>"
  have f: "ENGINE s' = Some i" "constructions s' = constructions s"
    "ENGINE_LOCK s' = ENGINE_LOCK s" "pcs s' = (pcs s)(t := AtRelease)"
    by (simp_all add: s'_def)
  from inv have i: "mutex (pcs s)" "ENGINE_LOCK s \<longleftrightarrow> some_holder (pcs s)"
    "\<forall>u. local_ok ok s (pcs s u)"
    "\<forall>i. ENGINE s = Some i \<longrightarrow> Suc i = constructions s \<and> ok i"
    "\<forall>k. Suc k < constructions s \<longrightarrow> \<not> ok k"
    "ENGINE s = None \<and> \<not> storing (pcs s) \<longrightarrow> (\<forall>k < constructions s. \<not> ok k)"
    by (simp_all add: invariant_def)
  have h: "holds_lock (pcs s t)" by (simp add: pc)
  have me: "ENGINE s = None \<and> Suc i = constructions s \<and> ok i"
    using i(3) pc by (metis local_ok.simps(2))
  have 1: "mutex (pcs s')"
    unfolding f by (rule mutex_upd_keep [OF i(1)]) (simp add: h)
  have 2: "ENGINE_LOCK s' \<longleftrightarrow> some_holder (pcs s')"
    unfolding f using i(2) holder_upd_same [of AtRelease "pcs s" t] h by simp
  have 3: "\<forall>u. local_ok ok s' (pcs s' u)"
  proof
    fix u
    show "local_ok ok s' (pcs s' u)"
    proof (cases "u = t")
      case True
      then show ?thesis by (simp add: f)
    next
      case False
      have "local_ok ok s' (pcs s u)"
        by (rule local_ok_store [OF _ others_idle [OF i(1) h False] _ f(2)]) (simp_all add: i(3) me)
      with False show ?thesis by (simp add: f(4))
    qed
  qed
  have "invariant ok s'"
    unfolding invariant_def using 1 2 3 i(5) me by (simp add: f(1,2))
  then show ?thesis by (simp add: s'_def)
qed

lemma step_preserves:
  assumes inv: "invariant ok s"
  shows "invariant ok (step ok t s)"
proof -
  from inv have lo: "local_ok ok s (pcs s t)" by (simp add: invariant_def)
  show ?thesis
  proof (cases "pcs s t")
    case AtCheck1
    show ?thesis
    proof (cases "ENGINE s = None")
      case True
      have "invariant ok (s\<lparr>pcs := (pcs s)(t := AtAcquire)\<rparr>)"
        by (rule pc_only_step [OF inv]) (simp_all add: AtCheck1)
      with AtCheck1 True show ?thesis by (simp add: step_def goto_def)
    next
      case False
      have "invariant ok (s\<lparr>pcs := (pcs s)(t := AtReturn)\<rparr>)"
        by (rule pc_only_step [OF inv]) (simp_all add: AtCheck1 False)
      with AtCheck1 False show ?thesis by (auto simp: step_def goto_def)
    qed
  next
    case AtAcquire
    show ?thesis
    proof (cases "ENGINE_LOCK s")
      case True
      with AtAcquire inv show ?thesis by (simp add: step_def)
    next
      case False
      from acquire_step [OF inv AtAcquire False] AtAcquire False
      show ?thesis by (simp add: step_def goto_def)
    qed
  next
    case AtCheck2
    show ?thesis
    proof (cases "ENGINE s = None")
      case True
      have "invariant ok (s\<lparr>pcs := (pcs s)(t := AtConstruct)\<rparr>)"
        by (rule pc_only_step [OF inv]) (simp_all add: AtCheck2 True)
      with AtCheck2 True show ?thesis by (simp add: step_def goto_def)
    next
      case False
      have "invariant ok (s\<lparr>pcs := (pcs s)(t := AtRelease)\<rparr>)"
        by (rule pc_only_step [OF inv]) (simp_all add: AtCheck2 False)
      with AtCheck2 False show ?thesis by (auto simp: step_def goto_def)
    qed
  next
    case AtConstruct
    from construct_step [OF inv AtConstruct] AtConstruct
    show ?thesis by (simp add: step_def goto_def Let_def)
  next
    case (AtStore i)
    from store_step [OF inv AtStore] AtStore
    show ?thesis by (simp add: step_def goto_def)
  next
    case AtRelease
    have "invariant ok (s\<lparr>ENGINE_LOCK := False, pcs := (pcs s)(t := AtReturn)\<rparr>)"
      by (rule release_step [OF inv]) (use lo in \<open>simp_all add: AtRelease\<close>)
    with AtRelease show ?thesis by (simp add: step_def goto_def)
  next
    case AtReleaseRaise
    have "invariant ok (s\<lparr>ENGINE_LOCK := False, pcs := (pcs s)(t := Raised)\<rparr>)"
      by (rule release_step [OF inv]) (use lo in \<open>simp_all add: AtReleaseRaise\<close>)
    with AtReleaseRaise show ?thesis by (simp add: step_def goto_def)
  next
    case AtReturn
    have "invariant ok (s\<lparr>pcs := (pcs s)(t := Returned (ENGINE s))\<rparr>)"
      by (rule pc_only_step [OF inv]) (use lo in \<open>simp_all add: AtReturn\<close>)
    with AtReturn show ?thesis by (simp add: step_def goto_def)
  next
    case (Returned v)
    with inv show ?thesis by (simp add: step_def)
  next
    case Raised
    with inv show ?thesis by (simp add: step_def)
  qed
qed

lemma run_preserves: "invariant ok s \<Longrightarrow> invariant ok (run ok schedule s)"
  by (induction schedule arbitrary: s) (simp_all add: step_preserves)

lemma invariant_reachable: "invariant ok (run ok schedule initial)"
  by (rule run_preserves [OF invariant_initial])

lemma returning_caller:
  assumes "ENGINE s = Some i" "pcs s t = AtCheck1"
  shows "run ok [t, t] s = goto t (Returned (Some i)) s"
  using assms by (simp add: step_def goto_def)

lemma returned_is_engine:
  assumes "invariant ok s" "pcs s t = Returned v"
  shows "v = ENGINE s \<and> v \<noteq> None"
proof -
  from assms(1) have "local_ok ok s (pcs s t)" by (simp add: invariant_def)
  with assms(2) show ?thesis by (metis local_ok.simps(7))
qed

lemma one_success:
  assumes "invariant ok s" "j < constructions s" "k < constructions s" "ok j" "ok k"
  shows "j = k"
proof -
  from assms(1) have "\<forall>k. Suc k < constructions s \<longrightarrow> \<not> ok k" by (simp add: invariant_def)
  with assms(4,5) have "\<not> Suc j < constructions s" "\<not> Suc k < constructions s" by blast+
  with assms(2,3) show ?thesis by arith
qed

lemma one_construction:
  assumes inv: "invariant ok s" and ok: "\<forall>k. ok k"
  shows "constructions s \<le> 1"
    and "pcs s t = Returned v \<Longrightarrow> v = Some 0 \<and> constructions s = 1"
    and "pcs s t \<noteq> Raised"
proof -
  from inv have i: "\<forall>u. local_ok ok s (pcs s u)"
    "\<forall>i. ENGINE s = Some i \<longrightarrow> Suc i = constructions s \<and> ok i"
    "\<forall>k. Suc k < constructions s \<longrightarrow> \<not> ok k"
    by (simp_all add: invariant_def)
  have "\<not> Suc 0 < constructions s" using i(3) ok by blast
  then show le: "constructions s \<le> 1" by simp
  show "v = Some 0 \<and> constructions s = 1" if "pcs s t = Returned v"
  proof -
    from returned_is_engine [OF inv that] obtain e where e: "v = Some e" "ENGINE s = Some e" by auto
    with i(2) have "Suc e = constructions s" by simp
    with le e show ?thesis by simp
  qed
  show "pcs s t \<noteq> Raised"
  proof
    assume "pcs s t = Raised"
    with i(1) have "\<exists>k < constructions s. \<not> ok k" by (metis local_ok.simps(6))
    with ok show False by blast
  qed
qed

lemma solo_step:
  assumes "unblocked t s"
  shows "unblocked t (step ok t s)
       \<and> (steps_left (pcs (step ok t s) t) < steps_left (pcs s t)
            \<or> steps_left (pcs (step ok t s) t) = 0)"
  using assms
  by (cases "pcs s t") (auto simp: unblocked_def step_def goto_def Let_def)

lemma solo_run:
  assumes "unblocked t s" "steps_left (pcs s t) \<le> n"
  shows "unblocked t (run ok (replicate n t) s)
       \<and> steps_left (pcs (run ok (replicate n t) s) t) = 0"
  using assms
proof (induction n arbitrary: s)
  case 0
  then show ?case by simp
next
  case (Suc n)
  from solo_step [OF Suc.prems(1), of ok] Suc.prems(2)
  have u: "unblocked t (step ok t s)" and d: "steps_left (pcs (step ok t s) t) \<le> n"
    by auto
  from Suc.IH [OF u d] show ?case by simp
qed

lemma step_other: "u \<noteq> t \<Longrightarrow> pcs (step ok u s) t = pcs s t"
  by (cases "pcs s u") (auto simp: step_def goto_def Let_def)

lemma run_append: "run ok (a @ b) s = run ok b (run ok a s)"
  by (induction a arbitrary: s) simp_all

lemma steps_left_le_7: "steps_left p \<le> 7"
  by (cases p) simp_all

lemma steps_left_0: "steps_left p = 0 \<Longrightarrow> \<not> holds_lock p \<and> ((\<exists>v. p = Returned v) \<or> p = Raised)"
  by (cases p) simp_all

lemma can_finish:
  assumes inv: "invariant ok s"
  shows "\<exists>rest. steps_left (pcs (run ok rest s) t) = 0"
proof (cases "unblocked t s")
  case True
  from solo_run [OF True steps_left_le_7, of ok] show ?thesis by blast
next
  case False
  then have lk: "ENGINE_LOCK s" and nh: "\<not> holds_lock (pcs s t)"
    by (simp_all add: unblocked_def)
  from inv lk obtain u where u: "holds_lock (pcs s u)"
    by (auto simp: invariant_def some_holder_def)
  define s1 where "s1 = run ok (replicate 7 u) s"
  have ub: "unblocked u s" using u by (simp add: unblocked_def)
  from solo_run [OF ub steps_left_le_7, of ok]
  have u1: "unblocked u s1" and d1: "steps_left (pcs s1 u) = 0"
    by (simp_all add: s1_def)
  from steps_left_0 [OF d1] have "\<not> holds_lock (pcs s1 u)" by simp
  with u1 have "\<not> ENGINE_LOCK s1" by (simp add: unblocked_def)
  then have "unblocked t s1" by (simp add: unblocked_def)
  from solo_run [OF this steps_left_le_7, of ok]
  have "steps_left (pcs (run ok (replicate 7 t) s1) t) = 0" by simp
  then have "steps_left (pcs (run ok (replicate 7 u @ replicate 7 t) s) t) = 0"
    by (simp add: run_append s1_def)
  then show ?thesis by blast
qed

lemma every_caller_returns:
  assumes inv: "invariant ok s" and ok: "\<forall>k. ok k"
  shows "\<exists>rest. pcs (run ok rest s) t = Returned (Some 0)"
proof -
  from can_finish [OF inv, of t] obtain rest where d: "steps_left (pcs (run ok rest s) t) = 0"
    by blast
  have inv': "invariant ok (run ok rest s)" by (rule run_preserves [OF inv])
  from steps_left_0 [OF d] one_construction(3) [OF inv' ok, of t]
  obtain v where v: "pcs (run ok rest s) t = Returned v" by blast
  from one_construction(2) [OF inv' ok v] v show ?thesis by blast
qed

text \<open>
  C6. In every state that any interleaving of any number of callers of \<open>get_engine\<close>
  can reach: all callers that have returned received the same instance, the one stored
  in \<open>_ENGINE\<close>, and at most one construction has returned. When the constructor does
  not raise, it has run at most once, exactly once as soon as some caller has returned,
  the instance every caller received is that first one, no caller has raised, and every
  caller can still be scheduled so that it returns that instance. A caller that arrives
  when the engine is stored returns it in two steps that touch neither the lock nor the
  constructor.
\<close>

theorem get_engine_singleton:
  assumes "s = run ctor_ok schedule initial"
  shows "(\<forall>t u v w. pcs s t = Returned v \<and> pcs s u = Returned w
            \<longrightarrow> v = w \<and> v = ENGINE s \<and> v \<noteq> None)
       \<and> (\<forall>j k. j < constructions s \<and> k < constructions s \<and> ctor_ok j \<and> ctor_ok k \<longrightarrow> j = k)
       \<and> ((\<forall>k. ctor_ok k) \<longrightarrow>
             constructions s \<le> 1
             \<and> (\<forall>t v. pcs s t = Returned v \<longrightarrow> v = Some 0 \<and> constructions s = 1)
             \<and> (\<forall>t. pcs s t \<noteq> Raised)
             \<and> (\<forall>t. \<exists>rest. pcs (run ctor_ok rest s) t = Returned (Some 0)))
       \<and> (\<forall>t i. ENGINE s = Some i \<and> pcs s t = AtCheck1
             \<longrightarrow> run ctor_ok [t, t] s = goto t (Returned (Some i)) s)"
proof -
  have inv: "invariant ctor_ok s"
    unfolding assms by (rule invariant_reachable)
  have a: "\<forall>t u v w. pcs s t = Returned v \<and> pcs s u = Returned w
            \<longrightarrow> v = w \<and> v = ENGINE s \<and> v \<noteq> None"
    using returned_is_engine [OF inv] by blast
  have b: "\<forall>j k. j < constructions s \<and> k < constructions s \<and> ctor_ok j \<and> ctor_ok k \<longrightarrow> j = k"
    using one_success [OF inv] by blast
  have c: "constructions s \<le> 1
             \<and> (\<forall>t v. pcs s t = Returned v \<longrightarrow> v = Some 0 \<and> constructions s = 1)
             \<and> (\<forall>t. pcs s t \<noteq> Raised)
             \<and> (\<forall>t. \<exists>rest. pcs (run ctor_ok rest s) t = Returned (Some 0))" if ok: "\<forall>k. ctor_ok k"
    using one_construction [OF inv ok] every_caller_returns [OF inv ok] by blast
  have d: "\<forall>t i. ENGINE s = Some i \<and> pcs s t = AtCheck1
             \<longrightarrow> run ctor_ok [t, t] s = goto t (Returned (Some i)) s"
    using returning_caller by blast
  from a b c d show ?thesis by blast
qed

lemma race_of_two:
  "pcs (run (\<lambda>k. True) [0, 1, 0, 1, 0, 0, 1, 0, 0, 1, 1, 1, 1, 0] initial) 0 = Returned (Some 0)
   \<and> pcs (run (\<lambda>k. True) [0, 1, 0, 1, 0, 0, 1, 0, 0, 1, 1, 1, 1, 0] initial) (Suc 0) = Returned (Some 0)
   \<and> pcs (run (\<lambda>k. True) [0, 1, 0, 1, 0, 0, 1, 0, 0, 1, 1, 1, 1, 0] initial) 2 = AtCheck1"
  by (simp add: step_def goto_def initial_def)

theorem get_engine_singleton_witness:
  "(\<forall>k. (\<lambda>k. True) k)
   \<and> pcs (run (\<lambda>k. True) [0, 1, 0, 1, 0, 0, 1, 0, 0, 1, 1, 1, 1, 0] initial) 0 = Returned (Some 0)
   \<and> pcs (run (\<lambda>k. True) [0, 1, 0, 1, 0, 0, 1, 0, 0, 1, 1, 1, 1, 0] initial) (Suc 0) = Returned (Some 0)
   \<and> pcs (run (\<lambda>k. True) [0, 1, 0, 1, 0, 0, 1, 0, 0, 1, 1, 1, 1, 0] initial) 2 = AtCheck1
   \<and> constructions (run (\<lambda>k. True) [0, 1, 0, 1, 0, 0, 1, 0, 0, 1, 1, 1, 1, 0] initial) = 1
   \<and> ENGINE (run (\<lambda>k. True) [0, 1, 0, 1, 0, 0, 1, 0, 0, 1, 1, 1, 1, 0] initial) = Some 0
   \<and> pcs (run (\<lambda>k. True) [2, 2]
            (run (\<lambda>k. True) [0, 1, 0, 1, 0, 0, 1, 0, 0, 1, 1, 1, 1, 0] initial)) 2 = Returned (Some 0)"
proof -
  define s where "s = run (\<lambda>k. True) [0, 1, 0, 1, 0, 0, 1, 0, 0, 1, 1, 1, 1, 0] initial"
  note t = get_engine_singleton [OF s_def]
  have r: "pcs s 0 = Returned (Some 0)" "pcs s (Suc 0) = Returned (Some 0)" "pcs s 2 = AtCheck1"
    using race_of_two unfolding s_def by blast+
  have ok: "\<forall>k. (\<lambda>k. True) k" by simp
  note t1 = t [THEN conjunct1]
  note t3 = t [THEN conjunct2, THEN conjunct2, THEN conjunct1]
  note t4 = t [THEN conjunct2, THEN conjunct2, THEN conjunct2]
  from t3 ok r(1) have c: "constructions s = 1" by blast
  from t1 r(1) have e: "ENGINE s = Some 0" by metis
  from t4 e r(3) have "run (\<lambda>k. True) [2, 2] s = goto 2 (Returned (Some 0)) s" by blast
  then have g: "pcs (run (\<lambda>k. True) [2, 2] s) 2 = Returned (Some 0)" by (simp add: goto_def)
  from ok r c e g show ?thesis unfolding s_def by blast
qed

end
